theory Spec2Isabelle
  imports Main "HOL-Library.Word"
begin

unbundle bit_operations_syntax

section \<open>Parameters of a parsed sequence (parser-glue.hh, parser.hh)\<close>

text \<open>
  C's \<open>unsigned int\<close> is a 32-bit word: \<open>++idx\<close> wraps around at \<open>2^32 - 1\<close>.
  C's \<open>int\<close> and \<open>long\<close> values are modelled as \<open>int\<close>; the handlers below never
  leave the range of the machine type on the values they read from a sequence
  (every parameter is \<open>-1\<close> or lies in \<open>0..0xFFFF\<close>).
\<close>

type_synonym uint = "32 word"

text \<open>
  Modelled from the spec: \<open>vte_seq_arg_t\<close> and its accessors \<open>vte_seq_arg_value\<close>,
  \<open>vte_seq_arg_nonfinal\<close>, \<open>vte_seq_arg_default\<close>, \<open>vte_seq_arg_value_final\<close> are
  declared in parser-arg.hh, which is not among the sources. The spec describes an
  argument as an optional value in \<open>0..0xFFFF\<close> (absent = default) together with a
  flag telling that more sub-parameters follow in the same block.
\<close>

record vte_seq_arg =
  arg_value :: "16 word option"
  arg_nonfinal :: bool

definition vte_seq_arg_value :: "vte_seq_arg \<Rightarrow> int \<Rightarrow> int" where
  "vte_seq_arg_value arg default_value =
     (case arg_value arg of None \<Rightarrow> default_value | Some v \<Rightarrow> uint v)"

definition vte_seq_arg_nonfinal :: "vte_seq_arg \<Rightarrow> bool" where
  "vte_seq_arg_nonfinal arg = arg_nonfinal arg"

definition vte_seq_arg_default :: "vte_seq_arg \<Rightarrow> bool" where
  "vte_seq_arg_default arg = (arg_value arg = None)"

definition vte_seq_arg_value_final :: "vte_seq_arg \<Rightarrow> int \<Rightarrow> int" where
  "vte_seq_arg_value_final arg default_value =
     (case arg_value arg of
        None \<Rightarrow> default_value
      | Some v \<Rightarrow> if arg_nonfinal arg then default_value else uint v)"

text \<open>
  \<open>struct vte_seq\<close>: only the parameter array matters here. \<open>args\<close> is the array
  \<open>args[VTE_PARSER_ARG_MAX]\<close>, \<open>n_args\<close> the number of entries in use. The accessors
  of \<open>Sequence\<close> read \<open>args[idx]\<close> only under the guard \<open>idx < size()\<close>.
\<close>

definition VTE_PARSER_ARG_MAX :: nat where
  "VTE_PARSER_ARG_MAX = 16"

record vte_seq =
  n_args :: uint
  args :: "vte_seq_arg list"

definition seq_ok :: "vte_seq \<Rightarrow> bool" where
  "seq_ok seq \<longleftrightarrow>
     length (args seq) = VTE_PARSER_ARG_MAX \<and> unat (n_args seq) \<le> VTE_PARSER_ARG_MAX"

text \<open>The sequence whose parameters in use are exactly \<open>xs\<close> (at most 16 of them).\<close>

definition default_arg :: vte_seq_arg where
  "default_arg = \<lparr>arg_value = None, arg_nonfinal = False\<rparr>"

definition mk_seq :: "vte_seq_arg list \<Rightarrow> vte_seq" where
  "mk_seq xs = \<lparr>n_args = of_nat (length xs),
               args = xs @ replicate (VTE_PARSER_ARG_MAX - length xs) default_arg\<rparr>"

text \<open>A final parameter \<open>v;\<close>, a non-final one \<open>v:\<close>, and their default-valued forms.\<close>

definition P :: "16 word \<Rightarrow> vte_seq_arg" where
  "P v = \<lparr>arg_value = Some v, arg_nonfinal = False\<rparr>"

definition S :: "16 word \<Rightarrow> vte_seq_arg" where
  "S v = \<lparr>arg_value = Some v, arg_nonfinal = True\<rparr>"

definition PD :: vte_seq_arg where
  "PD = \<lparr>arg_value = None, arg_nonfinal = False\<rparr>"

definition SD :: vte_seq_arg where
  "SD = \<lparr>arg_value = None, arg_nonfinal = True\<rparr>"

definition seq_size :: "vte_seq \<Rightarrow> uint" where
  "seq_size seq = n_args seq"

definition param :: "vte_seq \<Rightarrow> uint \<Rightarrow> int \<Rightarrow> int" where
  "param seq idx default_v =
     (if idx < seq_size seq then vte_seq_arg_value (args seq ! unat idx) default_v
      else default_v)"

definition param_clamped :: "vte_seq \<Rightarrow> uint \<Rightarrow> int \<Rightarrow> int \<Rightarrow> int \<Rightarrow> int" where
  "param_clamped seq idx default_v min_v max_v =
     (let v = param seq idx default_v in min (max v min_v) max_v)"

definition param_nonfinal :: "vte_seq \<Rightarrow> uint \<Rightarrow> bool" where
  "param_nonfinal seq idx =
     (if idx < seq_size seq then vte_seq_arg_nonfinal (args seq ! unat idx) else False)"

definition param_default :: "vte_seq \<Rightarrow> uint \<Rightarrow> bool" where
  "param_default seq idx =
     (if idx < seq_size seq then vte_seq_arg_default (args seq ! unat idx) else True)"

text \<open>\<open>Sequence::next\<close>: the \<open>while\<close> loop skips the non-final parameters of a block.\<close>

function seq_next :: "vte_seq \<Rightarrow> uint \<Rightarrow> uint" where
  "seq_next seq idx =
     (if param_nonfinal seq idx then seq_next seq (idx + 1) else idx + 1)"
  by pat_completeness auto
termination
proof (relation "measure (\<lambda>(seq, idx). unat (n_args seq) - unat idx)")
  show "wf (measure (\<lambda>(seq, idx). unat (n_args seq) - unat idx))"
    by simp
next
  fix seq :: vte_seq and idx :: uint
  assume nf: "param_nonfinal seq idx"
  then have lt: "idx < n_args seq"
    by (simp add: param_nonfinal_def seq_size_def split: if_splits)
  then have "unat idx < unat (n_args seq)"
    by (simp add: word_less_nat_alt)
  moreover have "idx \<noteq> - 1"
    using lt by (metis word_order.extremum_strict)
  then have "unat (idx + 1) = Suc (unat idx)"
    by (metis add.commute add_eq_0_iff unatSuc)
  ultimately show "((seq, idx + 1), (seq, idx)) \<in> measure (\<lambda>(seq, idx). unat (n_args seq) - unat idx)"
    by simp
qed

declare seq_next.simps [simp del]

definition cbegin :: "vte_seq \<Rightarrow> uint" where
  "cbegin seq = 0"

definition cend :: "vte_seq \<Rightarrow> uint" where
  "cend seq = seq_size seq"

text \<open>
  \<open>Sequence::collect\<close>: the \<open>for\<close> loop over the \<open>n\<close> output slots, returning the index
  reached and the values written to the slots, in order. The comparison
  \<open>(idx - start_idx) == params.size()\<close> subtracts in \<open>unsigned int\<close>.
\<close>

fun collect_loop :: "vte_seq \<Rightarrow> uint \<Rightarrow> nat \<Rightarrow> int \<Rightarrow> uint \<times> int list" where
  "collect_loop seq idx 0 default_v = (idx, [])"
| "collect_loop seq idx (Suc n) default_v =
     (let v = param seq idx default_v;
          (idx', vs) = collect_loop seq (seq_next seq idx) n default_v
      in (idx', v # vs))"

definition collect :: "vte_seq \<Rightarrow> uint \<Rightarrow> nat \<Rightarrow> int \<Rightarrow> bool \<times> int list" where
  "collect seq start_idx n default_v =
     (let (idx, vs) = collect_loop seq start_idx n default_v
      in (unat (idx - start_idx) = n, vs))"

definition collect1 :: "vte_seq \<Rightarrow> uint \<Rightarrow> int \<Rightarrow> int" where
  "collect1 seq idx default_v =
     (if idx < seq_size seq then vte_seq_arg_value_final (args seq ! unat idx) default_v
      else default_v)"

definition collect1_clamped :: "vte_seq \<Rightarrow> uint \<Rightarrow> int \<Rightarrow> int \<Rightarrow> int \<Rightarrow> int" where
  "collect1_clamped seq idx default_v min_v max_v =
     (let v = (if idx < seq_size seq
               then vte_seq_arg_value_final (args seq ! unat idx) default_v
               else default_v)
      in min (max v min_v) max_v)"

section \<open>Terminal state (the members of VteTerminalPrivate the handlers touch)\<close>

text \<open>
  Modelled from the spec: the cell attributes \<open>VteCellAttr\<close> with their setters
  (\<open>set_bold\<close>, \<open>set_fore\<close>, \<open>unset\<close>, \<open>copy_colors\<close>, ...) are declared in a header that
  is not among the sources. The spec lists the attributes that SGR sets, and says that
  \<open>copy_colors\<close> copies the colour fields only.
\<close>

record VteCellAttr =
  bold :: bool
  dim :: bool
  italic :: bool
  underline :: int
  blink :: bool
  reverse :: bool
  invisible :: bool
  strikethrough :: bool
  overline :: bool
  fore :: "32 word"
  back_c :: "32 word"
  deco :: "32 word"
  hyperlink_idx :: nat

definition copy_colors :: "VteCellAttr \<Rightarrow> VteCellAttr \<Rightarrow> VteCellAttr" where
  "copy_colors this other = this\<lparr>fore := fore other, back_c := back_c other, deco := deco other\<rparr>"

text \<open>
  Modelled from the spec: the row ring \<open>VteRing\<close> is an external collaborator; the
  handlers below only ask for the index after its last row (\<open>_vte_ring_next\<close>) and
  insert a row there (\<open>_vte_ring_insert\<close>), which moves that index by one.
\<close>

record VteRing =
  ring_end :: int

definition vte_ring_next :: "VteRing \<Rightarrow> int" where
  "vte_ring_next ring = ring_end ring"

definition vte_ring_insert :: "VteRing \<Rightarrow> int \<Rightarrow> VteRing" where
  "vte_ring_insert ring position = ring\<lparr>ring_end := ring_end ring + 1\<rparr>"

record VteScreen =
  cursor_row :: int
  cursor_col :: int
  insert_delta :: int
  row_data :: VteRing

record terminal =
  m_row_count :: int
  m_column_count :: int
  m_screen :: VteScreen
  m_scrolling_restricted :: bool
  m_scrolling_region_start :: int
  m_scrolling_region_end :: int
  m_reverse_mode :: bool
  m_origin_mode :: bool
  m_autowrap :: bool
  m_cursor_visible :: bool
  m_deccolm_mode :: bool
  m_keypad_mode :: bool
  m_focus_tracking_mode :: bool
  m_mouse_xterm_extension :: bool
  m_alternate_screen_scroll :: bool
  m_mouse_urxvt_extension :: bool
  m_meta_sends_escape :: bool
  m_bracketed_paste_mode :: bool
  m_cursor_mode :: int
  m_mouse_tracking_mode :: int
  m_dec_saved :: "int \<rightharpoonup> bool"
  m_defaults :: VteCellAttr
  m_color_defaults :: VteCellAttr
  m_fill_defaults :: VteCellAttr
  m_allow_hyperlink :: bool
  m_hyperlink_auto_id :: int
  child_out :: "string list"

text \<open>\<open>feed_child\<close> hands the reply to the child process; the model records it.\<close>

definition feed_child :: "string \<Rightarrow> terminal \<Rightarrow> terminal" where
  "feed_child reply t = t\<lparr>child_out := child_out t @ [reply]\<rparr>"

section \<open>SGR and its extended colours (vteseq.cc)\<close>

text \<open>
  The macro \<open>VTE_RGB_COLOR\<close>, the colour constants and \<open>reset_default_attributes\<close>
  (vte.cc) are not among the sources: they are parameters of the model.
\<close>

record sgr_env =
  VTE_RGB_COLOR :: "nat \<Rightarrow> nat \<Rightarrow> nat \<Rightarrow> int \<Rightarrow> int \<Rightarrow> int \<Rightarrow> 32 word"
  VTE_LEGACY_COLORS_OFFSET :: int
  VTE_COLOR_BRIGHT_OFFSET :: int
  VTE_DEFAULT_FG :: int
  VTE_DEFAULT_BG :: int
  reset_default_attributes :: "bool \<Rightarrow> terminal \<Rightarrow> terminal"

text \<open>
  \<open>seq_parse_sgr_color<redbits, greenbits, bluebits>(seq, idx, color)\<close>: the result is
  the value \<open>idx\<close> is left at, and the colour when the function returns \<open>true\<close>
  (\<open>None\<close> stands for \<open>false\<close>, where \<open>color\<close> is not written).
\<close>

definition seq_parse_sgr_color ::
  "sgr_env \<Rightarrow> nat \<Rightarrow> nat \<Rightarrow> nat \<Rightarrow> vte_seq \<Rightarrow> uint \<Rightarrow> uint \<times> 32 word option" where
  "seq_parse_sgr_color env redbits greenbits bluebits seq idx0 =
     (if param_nonfinal seq idx0 then
        \<comment> \<open>Colon version\<close>
        (let idx = idx0 + 1; p = param seq idx (- 1) in
         if p = 2 then
           (let n = seq_next seq idx - idx in
            if n < 4 then (idx, None)
            else if n > 4 \<and> \<not> param_default seq (idx + 1) then (idx + 1, None)
            else
              (let idx = (if n > 4 then idx + 1 else idx);
                   red = param seq (idx + 1) (- 1);
                   green = param seq (idx + 2) (- 1);
                   blue = param seq (idx + 3) (- 1);
                   idx = idx + 3
               in if (red AND 0xff) \<noteq> red \<or> (green AND 0xff) \<noteq> green \<or> (blue AND 0xff) \<noteq> blue
                  then (idx, None)
                  else (idx, Some (VTE_RGB_COLOR env redbits greenbits bluebits red green blue))))
         else if p = 5 then
           (let n = seq_next seq idx - idx in
            if n < 2 then (idx, None)
            else
              (let v = param seq (idx + 1) (- 1); idx = idx + 1
               in if v < 0 \<or> v \<ge> 256 then (idx, None) else (idx, Some (word_of_int v))))
         else (idx, None))
      else
        \<comment> \<open>Semicolon version\<close>
        (let idx = seq_next seq idx0; p = param seq idx (- 1) in
         if p = 2 then
           (let idx = seq_next seq idx; red = param seq idx (- 1);
                idx = seq_next seq idx; green = param seq idx (- 1);
                idx = seq_next seq idx; blue = param seq idx (- 1)
            in if (red AND 0xff) \<noteq> red \<or> (green AND 0xff) \<noteq> green \<or> (blue AND 0xff) \<noteq> blue
               then (idx, None)
               else (idx, Some (VTE_RGB_COLOR env redbits greenbits bluebits red green blue)))
         else if p = 5 then
           (let idx = seq_next seq idx; v = param seq idx (- 1)
            in if (v AND 0xff) \<noteq> v then (idx, None) else (idx, Some (word_of_int v)))
         else (idx, None)))"

definition upd_defaults :: "(VteCellAttr \<Rightarrow> VteCellAttr) \<Rightarrow> terminal \<Rightarrow> terminal" where
  "upd_defaults f t = t\<lparr>m_defaults := f (m_defaults t)\<rparr>"

definition set_fore :: "32 word \<Rightarrow> terminal \<Rightarrow> terminal" where
  "set_fore v = upd_defaults (\<lambda>a. a\<lparr>fore := v\<rparr>)"

definition set_back :: "32 word \<Rightarrow> terminal \<Rightarrow> terminal" where
  "set_back v = upd_defaults (\<lambda>a. a\<lparr>back_c := v\<rparr>)"

definition set_deco :: "32 word \<Rightarrow> terminal \<Rightarrow> terminal" where
  "set_deco v = upd_defaults (\<lambda>a. a\<lparr>deco := v\<rparr>)"

text \<open>
  One turn of the \<open>for\<close> loop of \<open>SGR\<close>: the \<open>switch\<close> on the parameter at \<open>i\<close>. The
  result is the value of \<open>i\<close> after the body (the colour parser moves it) and the new
  state.
\<close>

definition SGR_case :: "sgr_env \<Rightarrow> vte_seq \<Rightarrow> uint \<Rightarrow> terminal \<Rightarrow> uint \<times> terminal" where
  "SGR_case env seq i t =
     (let p = param seq i (- 1) in
      if p = - 1 \<or> p = 0 then (i, reset_default_attributes env False t)
      else if p = 1 then (i, upd_defaults (\<lambda>a. a\<lparr>bold := True\<rparr>) t)
      else if p = 2 then (i, upd_defaults (\<lambda>a. a\<lparr>dim := True\<rparr>) t)
      else if p = 3 then (i, upd_defaults (\<lambda>a. a\<lparr>italic := True\<rparr>) t)
      else if p = 4 then
        (let v = (if param_nonfinal seq i then param_clamped seq (i + 1) 1 0 3 else 1)
         in (i, upd_defaults (\<lambda>a. a\<lparr>underline := v\<rparr>) t))
      else if p = 5 then (i, upd_defaults (\<lambda>a. a\<lparr>blink := True\<rparr>) t)
      else if p = 7 then (i, upd_defaults (\<lambda>a. a\<lparr>reverse := True\<rparr>) t)
      else if p = 8 then (i, upd_defaults (\<lambda>a. a\<lparr>invisible := True\<rparr>) t)
      else if p = 9 then (i, upd_defaults (\<lambda>a. a\<lparr>strikethrough := True\<rparr>) t)
      else if p = 21 then (i, upd_defaults (\<lambda>a. a\<lparr>underline := 2\<rparr>) t)
      else if p = 22 then (i, upd_defaults (\<lambda>a. a\<lparr>bold := False, dim := False\<rparr>) t)
      else if p = 23 then (i, upd_defaults (\<lambda>a. a\<lparr>italic := False\<rparr>) t)
      else if p = 24 then (i, upd_defaults (\<lambda>a. a\<lparr>underline := 0\<rparr>) t)
      else if p = 25 then (i, upd_defaults (\<lambda>a. a\<lparr>blink := False\<rparr>) t)
      else if p = 27 then (i, upd_defaults (\<lambda>a. a\<lparr>reverse := False\<rparr>) t)
      else if p = 28 then (i, upd_defaults (\<lambda>a. a\<lparr>invisible := False\<rparr>) t)
      else if p = 29 then (i, upd_defaults (\<lambda>a. a\<lparr>strikethrough := False\<rparr>) t)
      else if 30 \<le> p \<and> p \<le> 37 then
        (i, set_fore (word_of_int (VTE_LEGACY_COLORS_OFFSET env + (p - 30))) t)
      else if p = 38 then
        (case seq_parse_sgr_color env 8 8 8 seq i of
           (i', Some c) \<Rightarrow> (i', set_fore c t)
         | (i', None) \<Rightarrow> (i', t))
      else if p = 39 then (i, set_fore (word_of_int (VTE_DEFAULT_FG env)) t)
      else if 40 \<le> p \<and> p \<le> 47 then
        (i, set_back (word_of_int (VTE_LEGACY_COLORS_OFFSET env + (p - 40))) t)
      else if p = 48 then
        (case seq_parse_sgr_color env 8 8 8 seq i of
           (i', Some c) \<Rightarrow> (i', set_back c t)
         | (i', None) \<Rightarrow> (i', t))
      else if p = 49 then (i, set_back (word_of_int (VTE_DEFAULT_BG env)) t)
      else if p = 53 then (i, upd_defaults (\<lambda>a. a\<lparr>overline := True\<rparr>) t)
      else if p = 55 then (i, upd_defaults (\<lambda>a. a\<lparr>overline := False\<rparr>) t)
      else if p = 58 then
        (case seq_parse_sgr_color env 4 5 4 seq i of
           (i', Some c) \<Rightarrow> (i', set_deco c t)
         | (i', None) \<Rightarrow> (i', t))
      else if p = 59 then (i, set_deco (word_of_int (VTE_DEFAULT_FG env)) t)
      else if 90 \<le> p \<and> p \<le> 97 then
        (i, set_fore (word_of_int (VTE_LEGACY_COLORS_OFFSET env + (p - 90)
                                    + VTE_COLOR_BRIGHT_OFFSET env)) t)
      else if 100 \<le> p \<and> p \<le> 107 then
        (i, set_back (word_of_int (VTE_LEGACY_COLORS_OFFSET env + (p - 100)
                                    + VTE_COLOR_BRIGHT_OFFSET env)) t)
      else (i, t))"

text \<open>
  The loop \<open>for (i = 0; i < n_params; i = seq.next(i))\<close>. Its index is a 32-bit word
  that the body moves, so the loop is a partial function: \<open>None\<close> means that it does
  not return.
\<close>

partial_function (option) SGR_loop ::
  "sgr_env \<Rightarrow> vte_seq \<Rightarrow> uint \<Rightarrow> terminal \<Rightarrow> terminal option" where
  "SGR_loop env seq i t =
     (if i < seq_size seq
      then (case SGR_case env seq i t of (i', t') \<Rightarrow> SGR_loop env seq (seq_next seq i') t')
      else Some t)"

definition save_colors :: "terminal \<Rightarrow> terminal" where
  "save_colors t =
     t\<lparr>m_color_defaults := copy_colors (m_color_defaults t) (m_defaults t),
       m_fill_defaults := copy_colors (m_fill_defaults t) (m_defaults t)\<rparr>"

definition SGR :: "sgr_env \<Rightarrow> vte_seq \<Rightarrow> terminal \<Rightarrow> terminal option" where
  "SGR env seq t =
     (if seq_size seq = 0 then Some (reset_default_attributes env False t)
      else map_option save_colors (SGR_loop env seq 0 t))"

text \<open>
  The direct-colour specification of C2, in the claim's words: the parameters
  starting at the 38, 48 or 58 at index \<open>i\<close> form a specification of a red, green and
  blue component, either in the colon grammar (\<open>38:2:R:G:B\<close>, or \<open>38:2::R:G:B\<close> with a
  default-valued colourspace) or in the semicolon grammar (\<open>38;2;R;G;B\<close>). The result
  is the three components and the index of the last parameter of the specification.
\<close>

definition rgb_spec :: "vte_seq \<Rightarrow> uint \<Rightarrow> (int \<times> int \<times> int \<times> uint) option" where
  "rgb_spec seq i =
     (if param_nonfinal seq i then
        (let n = seq_next seq (i + 1) - (i + 1) in
         if param seq (i + 1) (- 1) = 2 \<and> 4 \<le> n \<and> (n = 4 \<or> param_default seq (i + 2))
         then (let k = (if 4 < n then i + 2 else i + 1)
               in Some (param seq (k + 1) (- 1), param seq (k + 2) (- 1),
                        param seq (k + 3) (- 1), k + 3))
         else None)
      else
        (let n1 = seq_next seq i; n2 = seq_next seq n1; n3 = seq_next seq n2;
             n4 = seq_next seq n3
         in if param seq n1 (- 1) = 2
            then Some (param seq n2 (- 1), param seq n3 (- 1), param seq n4 (- 1), n4)
            else None))"

definition in_byte_range :: "int \<Rightarrow> bool" where
  "in_byte_range x \<longleftrightarrow> 0 \<le> x \<and> x \<le> 255"

text \<open>
  The number of parameter blocks that lie between two indices, in the words of C6:
  every block ends at its one parameter that is not non-final, so the blocks consumed
  on the way from \<open>s\<close> to \<open>e\<close> are the indices in \<open>[s, e)\<close> at which a block ends.
\<close>

definition blocks_between :: "vte_seq \<Rightarrow> uint \<Rightarrow> uint \<Rightarrow> nat" where
  "blocks_between seq s e =
     length (filter (\<lambda>j. \<not> param_nonfinal seq (of_nat j)) [unat s ..< unat e])"

section \<open>StringTokeniser (parser-glue.hh)\<close>

text \<open>
  \<open>std::string::npos\<close> is the largest \<open>size_type\<close>; positions are natural numbers and
  a string is shorter than \<open>npos\<close>. \<open>str_find s c pos\<close> is \<open>s.find(c, pos)\<close>.
\<close>

definition npos :: nat where
  "npos = 18446744073709551615"

definition str_find :: "string \<Rightarrow> char \<Rightarrow> nat \<Rightarrow> nat" where
  "str_find s c pos =
     (case filter (\<lambda>i. s ! i = c) [pos..<length s] of [] \<Rightarrow> npos | i # _ \<Rightarrow> i)"

record const_iterator =
  m_string :: string
  m_separator :: char
  m_position :: nat
  m_next_separator :: nat

definition tokeniser_cbegin :: "string \<Rightarrow> char \<Rightarrow> const_iterator" where
  "tokeniser_cbegin s sep =
     \<lparr>m_string = s, m_separator = sep, m_position = 0, m_next_separator = str_find s sep 0\<rparr>"

definition tokeniser_cend :: "string \<Rightarrow> char \<Rightarrow> const_iterator" where
  "tokeniser_cend s sep =
     \<lparr>m_string = s, m_separator = sep, m_position = npos, m_next_separator = npos\<rparr>"

text \<open>\<open>operator++\<close>.\<close>

definition increment :: "const_iterator \<Rightarrow> const_iterator" where
  "increment it =
     (if m_next_separator it \<noteq> npos
      then (let p = m_next_separator it + 1
            in it\<lparr>m_position := p, m_next_separator := str_find (m_string it) (m_separator it) p\<rparr>)
      else it\<lparr>m_position := npos\<rparr>)"

text \<open>
  \<open>size()\<close> and \<open>operator*\<close>. On an iterator that stands on a token the position is
  at most the next separator and at most the length of the string, so the unsigned
  subtractions of the source do not wrap.
\<close>

definition tok_size :: "const_iterator \<Rightarrow> nat" where
  "tok_size it =
     (if m_next_separator it \<noteq> npos then m_next_separator it - m_position it
      else length (m_string it) - m_position it)"

definition token :: "const_iterator \<Rightarrow> string" where
  "token it = take (tok_size it) (drop (m_position it) (m_string it))"

definition iterator_ok :: "const_iterator \<Rightarrow> bool" where
  "iterator_ok it \<longleftrightarrow>
     length (m_string it) < npos \<and> m_position it \<le> length (m_string it) \<and>
     (m_next_separator it = npos \<or>
      (m_position it \<le> m_next_separator it \<and> m_next_separator it < length (m_string it)))"

text \<open>
  \<open>number(int& v)\<close>: the result is the returned flag and the value left in \<open>v\<close>. The
  \<open>for\<close> loop reads the characters of the token by index. A byte from \<open>0x80\<close> on fails
  the digit test whether \<open>char\<close> is signed (it is below \<open>'0'\<close>) or not (above \<open>'9'\<close>).
\<close>

function number_loop :: "const_iterator \<Rightarrow> nat \<Rightarrow> nat \<Rightarrow> int \<Rightarrow> bool \<times> int" where
  "number_loop it s i v =
     (if i < s then
        (let c = (of_char (m_string it ! (m_position it + i)) :: nat) in
         if c < of_char (CHR ''0'') \<or> c > of_char (CHR ''9'') then (False, v)
         else
           (let v' = v * 10 + (int c - int (of_char (CHR ''0''))) in
            if v' > 0xffff then (False, v') else number_loop it s (i + 1) v'))
      else (i = s, v))"
  by pat_completeness auto
termination
  by (relation "measure (\<lambda>(it, s, i, v). s - i)") auto

declare number_loop.simps [simp del]

definition number :: "const_iterator \<Rightarrow> bool \<times> int" where
  "number it =
     (let s = tok_size it in if s = 0 then (True, - 1) else number_loop it s 0 0)"

text \<open>
  The words of C8: a digit is one of the characters \<open>0\<close> to \<open>9\<close>, and the decimal value
  of a string of digits is read from left to right.
\<close>

definition is_digit :: "char \<Rightarrow> bool" where
  "is_digit c \<longleftrightarrow> c \<in> set ''0123456789''"

definition digit_value :: "char \<Rightarrow> int" where
  "digit_value c = int (of_char c) - 48"

definition decimal_value :: "string \<Rightarrow> int" where
  "decimal_value cs = foldl (\<lambda>a c. a * 10 + digit_value c) 0 cs"

section \<open>Cursor positioning, DECSTBM, CUP and DSR (vteseq.cc)\<close>

text \<open>GLib's \<open>CLAMP(x, low, high)\<close>: \<open>(x > high) ? high : ((x < low) ? low : x)\<close>.\<close>

definition CLAMP :: "int \<Rightarrow> int \<Rightarrow> int \<Rightarrow> int" where
  "CLAMP x low high = (if x > high then high else if x < low then low else x)"

definition set_cursor_column :: "int \<Rightarrow> terminal \<Rightarrow> terminal" where
  "set_cursor_column col t =
     t\<lparr>m_screen := (m_screen t)\<lparr>cursor_col := CLAMP col 0 (m_column_count t - 1)\<rparr>\<rparr>"

definition set_cursor_column1 :: "int \<Rightarrow> terminal \<Rightarrow> terminal" where
  "set_cursor_column1 col t = set_cursor_column (col - 1) t"

definition set_cursor_row :: "int \<Rightarrow> terminal \<Rightarrow> terminal" where
  "set_cursor_row row t =
     (let (start_row, end_row) =
            (if m_origin_mode t \<and> m_scrolling_restricted t
             then (m_scrolling_region_start t, m_scrolling_region_end t)
             else (0, m_row_count t - 1));
          row = row + start_row;
          row = CLAMP row start_row end_row
      in t\<lparr>m_screen := (m_screen t)\<lparr>cursor_row := row + insert_delta (m_screen t)\<rparr>\<rparr>)"

definition set_cursor_row1 :: "int \<Rightarrow> terminal \<Rightarrow> terminal" where
  "set_cursor_row1 row t = set_cursor_row (row - 1) t"

definition set_cursor_coords :: "int \<Rightarrow> int \<Rightarrow> terminal \<Rightarrow> terminal" where
  "set_cursor_coords row column t = set_cursor_row row (set_cursor_column column t)"

definition set_cursor_coords1 :: "int \<Rightarrow> int \<Rightarrow> terminal \<Rightarrow> terminal" where
  "set_cursor_coords1 row column t = set_cursor_row1 row (set_cursor_column1 column t)"

definition home_cursor :: "terminal \<Rightarrow> terminal" where
  "home_cursor t = set_cursor_coords 0 0 t"

text \<open>
  The loop of DECSTBM that extends the ring until it covers the screen:
  \<open>while (_vte_ring_next(ring) < insert_delta + m_row_count) _vte_ring_insert(ring, _vte_ring_next(ring))\<close>.
\<close>

function extend_ring :: "terminal \<Rightarrow> terminal" where
  "extend_ring t =
     (if vte_ring_next (row_data (m_screen t)) < insert_delta (m_screen t) + m_row_count t
      then extend_ring
             (t\<lparr>m_screen := (m_screen t)\<lparr>row_data :=
                  vte_ring_insert (row_data (m_screen t))
                    (vte_ring_next (row_data (m_screen t)))\<rparr>\<rparr>)
      else t)"
  by pat_completeness auto
termination
  by (relation "measure (\<lambda>t. nat (insert_delta (m_screen t) + m_row_count t
                                  - vte_ring_next (row_data (m_screen t))))")
     (auto simp: vte_ring_next_def vte_ring_insert_def)

declare extend_ring.simps [simp del]

definition DECSTBM :: "vte_seq \<Rightarrow> terminal \<Rightarrow> terminal" where
  "DECSTBM seq t =
     (case snd (collect seq 0 2 (- 1)) of
        [start0, end0] \<Rightarrow>
          (let start = (if start0 = - 1 then 1 else start0);
               end1 = (if end0 = - 1 then m_row_count t else end0)
           in if start < 1 \<or> start > m_row_count t \<or> end1 < start + 1
              then home_cursor (t\<lparr>m_scrolling_restricted := False\<rparr>)
              else
                (let end2 = (if end1 > m_row_count t then m_row_count t else end1);
                     t = t\<lparr>m_scrolling_region_start := start - 1,
                           m_scrolling_region_end := end2 - 1,
                           m_scrolling_restricted := True\<rparr>;
                     t = (if m_scrolling_region_start t = 0
                             \<and> m_scrolling_region_end t = m_row_count t - 1
                          then t\<lparr>m_scrolling_restricted := False\<rparr>
                          else extend_ring t)
                 in home_cursor t))
      | _ \<Rightarrow> t)"

definition CUP :: "vte_seq \<Rightarrow> terminal \<Rightarrow> terminal" where
  "CUP seq t =
     (let rowvalue = collect1_clamped seq 0 1 1 (m_row_count t);
          colvalue = collect1_clamped seq (seq_next seq 0) 1 1 (m_column_count t)
      in set_cursor_coords1 rowvalue colvalue t)"

text \<open>\<open>printf\<close>'s \<open>%ld\<close>: the decimal digits of a \<open>long\<close>, with a minus sign when negative.\<close>

definition digit_char :: "nat \<Rightarrow> char" where
  "digit_char n = ''0123456789'' ! n"

function dec_nat :: "nat \<Rightarrow> string" where
  "dec_nat n = (if n < 10 then [digit_char n] else dec_nat (n div 10) @ [digit_char (n mod 10)])"
  by pat_completeness auto
termination
  by (relation "measure id") auto

declare dec_nat.simps [simp del]

definition printf_ld :: "int \<Rightarrow> string" where
  "printf_ld i = (if i < 0 then CHR ''-'' # dec_nat (nat (- i)) else dec_nat (nat i))"

text \<open>
  Modelled from the spec: \<open>_VTE_CAP_CSI\<close> is defined in a header that is not among the
  sources; the spec's glossary gives CSI as \<open>ESC [\<close>.
\<close>

definition VTE_CAP_CSI :: string where
  "VTE_CAP_CSI = [CHR 0x1B, CHR ''['']"

definition DSR_ECMA :: "vte_seq \<Rightarrow> terminal \<Rightarrow> terminal" where
  "DSR_ECMA seq t =
     (let p = collect1 seq 0 (- 1) in
      if p = - 1 \<or> p = 0 \<or> p = 1 \<or> p = 2 \<or> p = 3 \<or> p = 4 then t
      else if p = 5 then feed_child (VTE_CAP_CSI @ ''0n'') t
      else if p = 6 then
        (let (origin, rowmax) =
               (if m_origin_mode t \<and> m_scrolling_restricted t
                then (m_scrolling_region_start t, m_scrolling_region_end t)
                else (0, m_row_count t - 1));
             rowval = cursor_row (m_screen t) - insert_delta (m_screen t) - origin;
             rowval = CLAMP rowval 0 rowmax
         in feed_child (VTE_CAP_CSI @ printf_ld (rowval + 1) @ '';''
                        @ printf_ld (CLAMP (cursor_col (m_screen t) + 1) 1 (m_column_count t))
                        @ ''R'') t)
      else t)"

text \<open>An 80 by 24 terminal in its initial state, for the examples.\<close>

definition basic_attr :: VteCellAttr where
  "basic_attr = \<lparr>bold = False, dim = False, italic = False, underline = 0, blink = False,
     reverse = False, invisible = False, strikethrough = False, overline = False,
     fore = 0, back_c = 0, deco = 0, hyperlink_idx = 0\<rparr>"

definition terminal_80x24 :: terminal where
  "terminal_80x24 =
     \<lparr>m_row_count = 24, m_column_count = 80,
      m_screen = \<lparr>cursor_row = 0, cursor_col = 0, insert_delta = 0,
                  row_data = \<lparr>ring_end = 24\<rparr>\<rparr>,
      m_scrolling_restricted = False,
      m_scrolling_region_start = 0, m_scrolling_region_end = 23,
      m_reverse_mode = False, m_origin_mode = False, m_autowrap = True,
      m_cursor_visible = True, m_deccolm_mode = False, m_keypad_mode = False,
      m_focus_tracking_mode = False, m_mouse_xterm_extension = False,
      m_alternate_screen_scroll = True, m_mouse_urxvt_extension = False,
      m_meta_sends_escape = True, m_bracketed_paste_mode = False,
      m_cursor_mode = 0, m_mouse_tracking_mode = 0,
      m_dec_saved = Map.empty,
      m_defaults = basic_attr, m_color_defaults = basic_attr, m_fill_defaults = basic_attr,
      m_allow_hyperlink = True, m_hyperlink_auto_id = 0,
      child_out = []\<rparr>"

text \<open>
  The row of the cursor position report in the words of C5: the cursor row is clamped
  into the bounds of the active region (the scrolling region when origin mode and the
  restriction are both on, the screen otherwise), taken relative to the top of that
  region, and counted from 1. This is also what the comment in the source says the
  code should do.
\<close>

definition cpr_row_claimed :: "terminal \<Rightarrow> int" where
  "cpr_row_claimed t =
     (let (origin, rowmax) =
            (if m_origin_mode t \<and> m_scrolling_restricted t
             then (m_scrolling_region_start t, m_scrolling_region_end t)
             else (0, m_row_count t - 1))
      in CLAMP (cursor_row (m_screen t) - insert_delta (m_screen t)) origin rowmax - origin + 1)"

text \<open>
  An 80 by 24 terminal in origin mode with the scrolling region set to rows 5 to 10,
  and the cursor on row 21, below the region.
\<close>

definition terminal_cursor_below_region :: terminal where
  "terminal_cursor_below_region =
     terminal_80x24\<lparr>m_origin_mode := True, m_scrolling_restricted := True,
       m_scrolling_region_start := 4, m_scrolling_region_end := 9,
       m_screen := (m_screen terminal_80x24)\<lparr>cursor_row := 20\<rparr>\<rparr>"

section \<open>DEC private modes: decset (vteseq.cc)\<close>

text \<open>
  An entry of the table names the member that holds the mode by its offset in
  \<open>VteTerminalPrivate\<close>: \<open>boffset\<close> for a \<open>gboolean\<close> member, \<open>ioffset\<close> for an \<open>int\<close>
  member, 0 for none. The model names the member itself. \<open>poffset\<close> is 0 in every
  entry of the table, so that \<open>pvalue\<close> is always \<open>NULL\<close> and the pointer branches of
  \<open>decset\<close> never run: the model leaves them out.
\<close>

datatype boffset =
    B_reverse_mode | B_origin_mode | B_autowrap | B_cursor_visible | B_deccolm_mode
  | B_keypad_mode | B_focus_tracking_mode | B_mouse_xterm_extension
  | B_alternate_screen_scroll | B_mouse_urxvt_extension | B_meta_sends_escape
  | B_bracketed_paste_mode

datatype ioffset = I_cursor_mode | I_mouse_tracking_mode

fun bool_member :: "boffset \<Rightarrow> terminal \<Rightarrow> bool" where
  "bool_member B_reverse_mode t = m_reverse_mode t"
| "bool_member B_origin_mode t = m_origin_mode t"
| "bool_member B_autowrap t = m_autowrap t"
| "bool_member B_cursor_visible t = m_cursor_visible t"
| "bool_member B_deccolm_mode t = m_deccolm_mode t"
| "bool_member B_keypad_mode t = m_keypad_mode t"
| "bool_member B_focus_tracking_mode t = m_focus_tracking_mode t"
| "bool_member B_mouse_xterm_extension t = m_mouse_xterm_extension t"
| "bool_member B_alternate_screen_scroll t = m_alternate_screen_scroll t"
| "bool_member B_mouse_urxvt_extension t = m_mouse_urxvt_extension t"
| "bool_member B_meta_sends_escape t = m_meta_sends_escape t"
| "bool_member B_bracketed_paste_mode t = m_bracketed_paste_mode t"

fun set_bool_member :: "boffset \<Rightarrow> bool \<Rightarrow> terminal \<Rightarrow> terminal" where
  "set_bool_member B_reverse_mode v t = t\<lparr>m_reverse_mode := v\<rparr>"
| "set_bool_member B_origin_mode v t = t\<lparr>m_origin_mode := v\<rparr>"
| "set_bool_member B_autowrap v t = t\<lparr>m_autowrap := v\<rparr>"
| "set_bool_member B_cursor_visible v t = t\<lparr>m_cursor_visible := v\<rparr>"
| "set_bool_member B_deccolm_mode v t = t\<lparr>m_deccolm_mode := v\<rparr>"
| "set_bool_member B_keypad_mode v t = t\<lparr>m_keypad_mode := v\<rparr>"
| "set_bool_member B_focus_tracking_mode v t = t\<lparr>m_focus_tracking_mode := v\<rparr>"
| "set_bool_member B_mouse_xterm_extension v t = t\<lparr>m_mouse_xterm_extension := v\<rparr>"
| "set_bool_member B_alternate_screen_scroll v t = t\<lparr>m_alternate_screen_scroll := v\<rparr>"
| "set_bool_member B_mouse_urxvt_extension v t = t\<lparr>m_mouse_urxvt_extension := v\<rparr>"
| "set_bool_member B_meta_sends_escape v t = t\<lparr>m_meta_sends_escape := v\<rparr>"
| "set_bool_member B_bracketed_paste_mode v t = t\<lparr>m_bracketed_paste_mode := v\<rparr>"

fun int_member :: "ioffset \<Rightarrow> terminal \<Rightarrow> int" where
  "int_member I_cursor_mode t = m_cursor_mode t"
| "int_member I_mouse_tracking_mode t = m_mouse_tracking_mode t"

fun set_int_member :: "ioffset \<Rightarrow> int \<Rightarrow> terminal \<Rightarrow> terminal" where
  "set_int_member I_cursor_mode v t = t\<lparr>m_cursor_mode := v\<rparr>"
| "set_int_member I_mouse_tracking_mode v t = t\<lparr>m_mouse_tracking_mode := v\<rparr>"

text \<open>The member functions that the table names as set and reset hooks.\<close>

datatype decset_handler =
    H_reset_mouse_smooth_scroll_delta | H_feed_focus_event_initial
  | H_switch_normal_screen | H_switch_alternate_screen
  | H_restore_cursor | H_save_cursor
  | H_switch_normal_screen_and_restore_cursor | H_save_cursor_and_switch_alternate_screen

record decset_t =
  setting :: int
  boffset :: "boffset option"
  ioffset :: "ioffset option"
  fvalue :: int
  tvalue :: int
  reset_h :: "decset_handler option"
  set_h :: "decset_handler option"

text \<open>
  What \<open>decset\<close> uses and the sources do not hold: the values of the enumerations
  named in the table, the bodies of the hooks (most are in vte.cc), and the functions
  that the per-setting \<open>switch\<close> calls on the widget. They are parameters, so that
  what is proved holds whatever they do.
\<close>

record decset_env =
  VTE_KEYMODE_NORMAL :: int
  VTE_KEYMODE_APPLICATION :: int
  MOUSE_TRACKING_SEND_XY_ON_CLICK :: int
  MOUSE_TRACKING_SEND_XY_ON_BUTTON :: int
  MOUSE_TRACKING_HILITE_TRACKING :: int
  MOUSE_TRACKING_CELL_MOTION_TRACKING :: int
  MOUSE_TRACKING_ALL_MOTION_TRACKING :: int
  run_handler :: "decset_handler \<Rightarrow> terminal \<Rightarrow> terminal"
  emit_resize_window :: "int \<Rightarrow> int \<Rightarrow> terminal \<Rightarrow> terminal"
  clear_screen :: "terminal \<Rightarrow> terminal"
  invalidate_all :: "terminal \<Rightarrow> terminal"
  gtk_adjustment_set_value :: "terminal \<Rightarrow> terminal"
  set_scrollback_lines :: "terminal \<Rightarrow> terminal"
  queue_contents_changed :: "terminal \<Rightarrow> terminal"
  apply_mouse_cursor :: "terminal \<Rightarrow> terminal"

definition entry ::
  "int \<Rightarrow> boffset option \<Rightarrow> ioffset option \<Rightarrow> int \<Rightarrow> int
     \<Rightarrow> decset_handler option \<Rightarrow> decset_handler option \<Rightarrow> decset_t" where
  "entry s b i f t r st =
     \<lparr>setting = s, boffset = b, ioffset = i, fvalue = f, tvalue = t, reset_h = r, set_h = st\<rparr>"

text \<open>The table \<open>settings[]\<close>, in the order of the source (\<open>FALSE\<close> is 0, \<open>TRUE\<close> is 1).\<close>

definition settings :: "decset_env \<Rightarrow> decset_t list" where
  "settings env =
     [entry 1 None (Some I_cursor_mode) (VTE_KEYMODE_NORMAL env) (VTE_KEYMODE_APPLICATION env)
        None None,
      entry 2 None None 0 0 None None,
      entry 3 None None 0 1 None None,
      entry 5 (Some B_reverse_mode) None 0 1 None None,
      entry 6 (Some B_origin_mode) None 0 1 None None,
      entry 7 (Some B_autowrap) None 0 1 None None,
      entry 8 None None 0 0 None None,
      entry 9 None (Some I_mouse_tracking_mode) 0 (MOUSE_TRACKING_SEND_XY_ON_CLICK env)
        (Some H_reset_mouse_smooth_scroll_delta) (Some H_reset_mouse_smooth_scroll_delta),
      entry 12 None None 0 0 None None,
      entry 25 (Some B_cursor_visible) None 0 1 None None,
      entry 30 None None 0 0 None None,
      entry 35 None None 0 0 None None,
      entry 40 (Some B_deccolm_mode) None 0 1 None None,
      entry 47 None None 0 0 (Some H_switch_normal_screen) (Some H_switch_alternate_screen),
      entry 66 (Some B_keypad_mode) None (VTE_KEYMODE_NORMAL env) (VTE_KEYMODE_APPLICATION env)
        None None,
      entry 67 None None 0 0 None None,
      entry 1000 None (Some I_mouse_tracking_mode) 0 (MOUSE_TRACKING_SEND_XY_ON_BUTTON env)
        (Some H_reset_mouse_smooth_scroll_delta) (Some H_reset_mouse_smooth_scroll_delta),
      entry 1001 None (Some I_mouse_tracking_mode) 0 (MOUSE_TRACKING_HILITE_TRACKING env)
        (Some H_reset_mouse_smooth_scroll_delta) (Some H_reset_mouse_smooth_scroll_delta),
      entry 1002 None (Some I_mouse_tracking_mode) 0 (MOUSE_TRACKING_CELL_MOTION_TRACKING env)
        (Some H_reset_mouse_smooth_scroll_delta) (Some H_reset_mouse_smooth_scroll_delta),
      entry 1003 None (Some I_mouse_tracking_mode) 0 (MOUSE_TRACKING_ALL_MOTION_TRACKING env)
        (Some H_reset_mouse_smooth_scroll_delta) (Some H_reset_mouse_smooth_scroll_delta),
      entry 1004 (Some B_focus_tracking_mode) None 0 1 None (Some H_feed_focus_event_initial),
      entry 1006 (Some B_mouse_xterm_extension) None 0 1 None None,
      entry 1007 (Some B_alternate_screen_scroll) None 0 1 None None,
      entry 1010 None None 0 0 None None,
      entry 1011 None None 0 0 None None,
      entry 1015 (Some B_mouse_urxvt_extension) None 0 1 None None,
      entry 1035 None None 0 0 None None,
      entry 1036 (Some B_meta_sends_escape) None 0 1 None None,
      entry 1037 None None 0 0 None None,
      entry 1047 None None 0 0 (Some H_switch_normal_screen) (Some H_switch_alternate_screen),
      entry 1048 None None 0 0 (Some H_restore_cursor) (Some H_save_cursor),
      entry 1049 None None 0 0 (Some H_switch_normal_screen_and_restore_cursor)
        (Some H_save_cursor_and_switch_alternate_screen),
      entry 2004 (Some B_bracketed_paste_mode) None 0 1 None None]"

text \<open>
  \<open>key.setting = setting; found = bsearch(&key, settings, ...)\<close>: the \<open>long\<close> argument
  is narrowed to the \<open>gint16\<close> field (the low 16 bits, read as two's complement), and
  the table, sorted with distinct ids, holds at most one entry with that id.
\<close>

definition decset_find :: "decset_env \<Rightarrow> int \<Rightarrow> decset_t option" where
  "decset_find env s = find (\<lambda>e. setting e = signed_take_bit 15 s) (settings env)"

text \<open>"Handle settings we want to ignore": the test that leaves the \<open>do\<close> block.\<close>

definition decset_ignored :: "decset_t \<Rightarrow> bool" where
  "decset_ignored key \<longleftrightarrow> fvalue key = tvalue key \<and> set_h key = None \<and> reset_h key = None"

text \<open>"Change the current setting to match the new/saved value": the branch \<open>if (!save)\<close>.\<close>

definition decset_apply :: "decset_env \<Rightarrow> decset_t \<Rightarrow> bool \<Rightarrow> terminal \<Rightarrow> terminal" where
  "decset_apply env key set0 t =
     (let t = (case set_h key of Some h \<Rightarrow> if set0 then run_handler env h t else t | None \<Rightarrow> t);
          t = (case boffset key of
                 Some b \<Rightarrow> set_bool_member b set0 t
               | None \<Rightarrow>
                   (case ioffset key of
                      Some i \<Rightarrow> set_int_member i (if set0 then tvalue key else fvalue key) t
                    | None \<Rightarrow> t));
          t = (case reset_h key of Some h \<Rightarrow> if \<not> set0 then run_handler env h t else t | None \<Rightarrow> t)
      in t)"

text \<open>
  The block \<open>do { ... } while (0)\<close>: the result is the value of the local \<open>set\<close> after the
  block, and the new state. \<open>m_dec_saved\<close> maps a setting to the saved flag; a lookup
  that finds nothing, or a saved \<open>FALSE\<close>, gives \<open>NULL\<close>.
\<close>

definition decset_generic ::
  "decset_env \<Rightarrow> decset_t \<Rightarrow> int \<Rightarrow> bool \<Rightarrow> bool \<Rightarrow> bool \<Rightarrow> terminal \<Rightarrow> bool \<times> terminal" where
  "decset_generic env key s restore save set0 t =
     (if decset_ignored key then (set0, t)
      else
        (let set1 = (if restore then m_dec_saved t s = Some True else set0);
             set2 = (if save then
                       (case boffset key of
                          Some b \<Rightarrow> bool_member b t
                        | None \<Rightarrow>
                            (case ioffset key of
                               Some i \<Rightarrow> int_member i t = tvalue key
                             | None \<Rightarrow> set1))
                     else set1);
             t = (if save then t\<lparr>m_dec_saved := (m_dec_saved t)(s \<mapsto> set2)\<rparr> else t);
             t = (if \<not> save then decset_apply env key set2 t else t)
         in (set2, t)))"

text \<open>"Do whatever's necessary when the setting changes": the \<open>switch (setting)\<close>.\<close>

definition decset_switch :: "decset_env \<Rightarrow> int \<Rightarrow> bool \<Rightarrow> terminal \<Rightarrow> terminal" where
  "decset_switch env s set0 t =
     (if s = 1 then t
      else if s = 3 then
        (if m_deccolm_mode t
         then home_cursor (clear_screen env
                (emit_resize_window env (if set0 then 132 else 80) (m_row_count t) t))
         else t)
      else if s = 5 then invalidate_all env t
      else if s = 6 then home_cursor t
      else if s = 47 \<or> s = 1047 \<or> s = 1049 then
        (let t = (if set0 then clear_screen env t else t);
             t = gtk_adjustment_set_value env t;
             t = set_scrollback_lines env t;
             t = queue_contents_changed env t
         in invalidate_all env t)
      else if s = 9 \<or> s = 1000 \<or> s = 1001 \<or> s = 1002 \<or> s = 1003 then apply_mouse_cursor env t
      else t)"

definition decset :: "decset_env \<Rightarrow> int \<Rightarrow> bool \<Rightarrow> bool \<Rightarrow> bool \<Rightarrow> terminal \<Rightarrow> terminal" where
  "decset env s restore save set0 t =
     (case decset_find env s of
        None \<Rightarrow> t
      | Some key \<Rightarrow>
          (let (set1, t) = decset_generic env key s restore save set0 t
           in decset_switch env s set1 t))"

text \<open>
  The value that the save path stores, in the words of C4: the live value of the
  mode, a \<open>gboolean\<close> member read directly, an \<open>int\<close> member compared with its on-value.
  An entry that names no member has no live value to read: the flag that is stored
  is then the one the caller passed (or, with \<open>restore\<close>, the one saved before).
\<close>

definition live_value :: "decset_t \<Rightarrow> int \<Rightarrow> bool \<Rightarrow> bool \<Rightarrow> terminal \<Rightarrow> bool" where
  "live_value key s restore set0 t =
     (case boffset key of
        Some b \<Rightarrow> bool_member b t
      | None \<Rightarrow>
          (case ioffset key of
             Some i \<Rightarrow> int_member i t = tvalue key
           | None \<Rightarrow> if restore then m_dec_saved t s = Some True else set0))"

definition switch_settings :: "int set" where
  "switch_settings = {3, 5, 6, 9, 47, 1000, 1001, 1002, 1003, 1047, 1049}"

section \<open>OSC 8 hyperlinks: set_current_hyperlink (vteseq.cc)\<close>

text \<open>
  C strings are character lists (the terminating NUL is not part of the list); a null
  pointer is \<open>None\<close>. \<open>strstr hay needle\<close> is the rest of \<open>hay\<close> from the first occurrence
  of \<open>needle\<close> on.
\<close>

fun strstr :: "string \<Rightarrow> string \<Rightarrow> string option" where
  "strstr [] needle = (if needle = [] then Some [] else None)"
| "strstr (c # cs) needle =
     (if take (length needle) (c # cs) = needle then Some (c # cs) else strstr cs needle)"

text \<open>
  The length limits and the ring's hyperlink table are not among the sources: they
  are parameters. \<open>m_hyperlink_auto_id\<close> is a \<open>long\<close>; the model counts in \<open>int\<close>, that
  is, it covers the runs in which the counter does not overflow.
\<close>

record hyperlink_env =
  VTE_HYPERLINK_ID_LENGTH_MAX :: nat
  VTE_HYPERLINK_URI_LENGTH_MAX :: nat
  vte_ring_get_hyperlink_idx :: "VteRing \<Rightarrow> string option \<Rightarrow> nat \<times> VteRing"

text \<open>
  "Get the id parameter": the characters after a leading \<open>id=\<close>, or after the first
  \<open>:id=\<close>, cut at the first colon by \<open>*strchrnul(id, ':') = '\0'\<close>.
\<close>

definition hyperlink_id_param :: "string option \<Rightarrow> string option" where
  "hyperlink_id_param hyperlink_params =
     (let ident = (case hyperlink_params of
                  None \<Rightarrow> None
                | Some hp \<Rightarrow>
                    if take 3 hp = ''id='' then Some (drop 3 hp)
                    else map_option (drop 4) (strstr hp '':id=''))
      in map_option (takeWhile (\<lambda>c. c \<noteq> CHR '':'')) ident)"

text \<open>
  The body of \<open>set_current_hyperlink\<close> up to the request to the ring: the result is the
  id and the URI of the hyperlink \<open>id;uri\<close> that is asked of the ring (\<open>None\<close> when the
  ring is asked for no hyperlink), and the state with the counter of automatic ids.
\<close>

definition hyperlink_request ::
  "hyperlink_env \<Rightarrow> string option \<Rightarrow> string option \<Rightarrow> terminal
     \<Rightarrow> (string \<times> string) option \<times> terminal" where
  "hyperlink_request env hyperlink_params uri t =
     (let ident = hyperlink_id_param hyperlink_params;
          uri = (case uri of
                   Some u \<Rightarrow> if length u > VTE_HYPERLINK_URI_LENGTH_MAX env then Some [] else Some u
                 | None \<Rightarrow> None);
          ident = (case ident of
                  Some i \<Rightarrow> if length i > VTE_HYPERLINK_ID_LENGTH_MAX env then Some [] else Some i
                | None \<Rightarrow> None)
      in case uri of
           Some (c # u) \<Rightarrow>
             (case ident of
                Some (d # i) \<Rightarrow> (Some (d # i, c # u), t)
              | _ \<Rightarrow>
                  (Some (CHR '':'' # printf_ld (m_hyperlink_auto_id t), c # u),
                   t\<lparr>m_hyperlink_auto_id := m_hyperlink_auto_id t + 1\<rparr>))
         | _ \<Rightarrow> (None, t))"

definition set_current_hyperlink ::
  "hyperlink_env \<Rightarrow> string option \<Rightarrow> string option \<Rightarrow> terminal \<Rightarrow> terminal" where
  "set_current_hyperlink env hyperlink_params uri t =
     (if \<not> m_allow_hyperlink t then t
      else
        (let (h, t) = hyperlink_request env hyperlink_params uri t;
             (idx, ring) = vte_ring_get_hyperlink_idx env (row_data (m_screen t))
                             (map_option (\<lambda>(ident, u). ident @ '';'' @ u) h)
         in t\<lparr>m_defaults := (m_defaults t)\<lparr>hyperlink_idx := idx\<rparr>,
              m_screen := (m_screen t)\<lparr>row_data := ring\<rparr>\<rparr>))"

text \<open>
  A run of OSC 8 sequences, each given by its parameter string and its URI: the ids
  of the hyperlinks that are asked of the ring, in order.
\<close>

fun hyperlink_ids ::
  "hyperlink_env \<Rightarrow> (string option \<times> string option) list \<Rightarrow> terminal \<Rightarrow> string list" where
  "hyperlink_ids env [] t = []"
| "hyperlink_ids env ((hp, uri) # calls) t =
     (if m_allow_hyperlink t
      then (case fst (hyperlink_request env hp uri t) of
              Some (ident, u) \<Rightarrow> [ident] | None \<Rightarrow> [])
      else [])
     @ hyperlink_ids env calls (set_current_hyperlink env hp uri t)"

text \<open>An id is automatic when it begins with a colon.\<close>

definition automatic_id :: "string \<Rightarrow> bool" where
  "automatic_id ident \<longleftrightarrow> (case ident of [] \<Rightarrow> False | c # _ \<Rightarrow> c = CHR '':'')"

text \<open>An environment for the examples: the limits, and a ring that knows one hyperlink.\<close>

definition hl_env :: hyperlink_env where
  "hl_env = \<lparr>VTE_HYPERLINK_ID_LENGTH_MAX = 250, VTE_HYPERLINK_URI_LENGTH_MAX = 2083,
            vte_ring_get_hyperlink_idx = (\<lambda>ring h. (case h of None \<Rightarrow> 0 | Some _ \<Rightarrow> 1, ring))\<rparr>"

section \<open>Properties\<close>

subsection \<open>Word arithmetic on parameter indices\<close>

lemma unat_m1: "unat (- 1 :: uint) = 4294967295"
  by (simp add: unsigned_minus_1_eq_mask mask_eq_exp_minus_1)

lemma unat_max32: "unat (idx :: uint) < 4294967295 \<longleftrightarrow> idx \<noteq> - 1"
proof
  assume "unat idx < 4294967295"
  then show "idx \<noteq> - 1" by (auto simp: unat_m1)
next
  assume "idx \<noteq> - 1"
  then have "idx < - 1" by (simp add: word_order.not_eq_extremum)
  then show "unat idx < 4294967295" by (simp add: word_less_nat_alt unat_m1)
qed

lemma unat_succ_ne: "(idx :: uint) \<noteq> - 1 \<Longrightarrow> unat (idx + 1) = Suc (unat idx)"
  by (metis add.commute add_eq_0_iff unatSuc)

lemma param_nonfinal_less: "param_nonfinal seq idx \<Longrightarrow> idx < n_args seq"
  by (simp add: param_nonfinal_def seq_size_def split: if_splits)

lemma seq_next_bounds:
  "unat (n_args seq) < 4294967295 \<Longrightarrow> idx \<noteq> - 1 \<Longrightarrow>
     unat idx < unat (seq_next seq idx) \<and>
     unat (seq_next seq idx) \<le> max (Suc (unat idx)) (Suc (unat (n_args seq)))"
proof (induction seq idx rule: seq_next.induct)
  case (1 seq idx)
  show ?case
  proof (cases "param_nonfinal seq idx")
    case False
    then show ?thesis
      using "1.prems" by (simp add: seq_next.simps unat_succ_ne)
  next
    case True
    then have lt: "unat idx < unat (n_args seq)"
      by (simp add: param_nonfinal_less word_less_nat_alt [symmetric])
    have s: "unat (idx + 1) = Suc (unat idx)"
      using "1.prems" by (simp add: unat_succ_ne)
    have ne: "idx + 1 \<noteq> - 1"
      using lt s "1.prems"(1) unat_max32 [of "idx + 1"] by simp
    from "1.IH" [OF True "1.prems"(1) ne] show ?thesis
      using s lt True by (auto simp add: seq_next.simps [of seq idx] max_def split: if_splits)
  qed
qed

lemma seq_next_small:
  assumes "seq_ok seq" and "unat idx \<le> b" and "16 \<le> b" and "b < 1000"
  shows "unat idx < unat (seq_next seq idx) \<and> unat (seq_next seq idx) \<le> Suc b"
proof -
  have n: "unat (n_args seq) \<le> 16"
    using assms(1) by (simp add: seq_ok_def VTE_PARSER_ARG_MAX_def)
  have "idx \<noteq> - 1"
    using assms(2,4) unat_max32 [of idx] by simp
  with seq_next_bounds [of seq idx] n assms show ?thesis
    by (auto simp: max_def split: if_splits)
qed

lemma unat_plus_small:
  "unat (i :: uint) \<le> 1000 \<Longrightarrow> k \<le> 1000 \<Longrightarrow> unat (i + of_nat k) = unat i + k"
  by (simp add: unat_word_ariths unat_of_nat take_bit_nat_eq_self)

lemma parse_idx_cases:
  "seq_parse_sgr_color env r g b seq i = (i', c) \<Longrightarrow>
     i' \<in> {i + 1, i + 2, i + 4, i + 5, seq_next seq i, seq_next seq (seq_next seq i),
           seq_next seq (seq_next seq (seq_next seq (seq_next seq i)))}"
  by (auto simp: seq_parse_sgr_color_def Let_def split: if_splits)


lemma unat_plus_num:
  assumes "unat (i :: uint) \<le> 16"
  shows "unat (i + 1) = unat i + 1" "unat (i + 2) = unat i + 2"
        "unat (i + 4) = unat i + 4" "unat (i + 5) = unat i + 5"
  using assms unat_plus_small [of i 1] unat_plus_small [of i 2]
        unat_plus_small [of i 4] unat_plus_small [of i 5]
  by simp_all

lemma parse_idx_bounds:
  assumes ok: "seq_ok seq" and i: "unat i \<le> 16"
    and p: "seq_parse_sgr_color env r g b seq i = (i', c)"
  shows "unat i \<le> unat i' \<and> unat i' \<le> 21"
proof -
  let ?n1 = "seq_next seq i"
  let ?n2 = "seq_next seq ?n1"
  let ?n3 = "seq_next seq ?n2"
  let ?n4 = "seq_next seq ?n3"
  have b1: "unat i < unat ?n1 \<and> unat ?n1 \<le> 17"
    using seq_next_small [OF ok, of i 16] i by simp
  then have b2: "unat ?n1 < unat ?n2 \<and> unat ?n2 \<le> 18"
    using seq_next_small [OF ok, of ?n1 17] by simp
  then have b3: "unat ?n2 < unat ?n3 \<and> unat ?n3 \<le> 19"
    using seq_next_small [OF ok, of ?n2 18] by simp
  then have b4: "unat ?n3 < unat ?n4 \<and> unat ?n4 \<le> 20"
    using seq_next_small [OF ok, of ?n3 19] by simp
  from parse_idx_cases [OF p]
  consider "i' = i + 1" | "i' = i + 2" | "i' = i + 4" | "i' = i + 5"
    | "i' = ?n1" | "i' = ?n2" | "i' = ?n4"
    by auto
  then show ?thesis
  proof cases
    case 1 then show ?thesis using unat_plus_num(1) [OF i] i by simp
  next
    case 2 then show ?thesis using unat_plus_num(2) [OF i] i by simp
  next
    case 3 then show ?thesis using unat_plus_num(3) [OF i] i by simp
  next
    case 4 then show ?thesis using unat_plus_num(4) [OF i] i by simp
  next
    case 5 then show ?thesis using b1 by simp
  next
    case 6 then show ?thesis using b1 b2 by simp
  next
    case 7 then show ?thesis using b1 b2 b3 b4 by simp
  qed
qed

lemma SGR_case_idx:
  assumes ok: "seq_ok seq" and i: "unat i \<le> 16" and c: "SGR_case env seq i t = (i', t')"
  shows "unat i \<le> unat i' \<and> unat i' \<le> 21"
proof -
  have "i' = i \<or> (\<exists>r g b col. seq_parse_sgr_color env r g b seq i = (i', col))"
    using c by (auto simp: SGR_case_def Let_def split: if_splits prod.splits option.splits)
  then show ?thesis
    using parse_idx_bounds [OF ok i] i by auto
qed

lemma SGR_loop_exit: "\<not> i < seq_size seq \<Longrightarrow> SGR_loop env seq i t = Some t"
  by (subst SGR_loop.simps) simp

lemma SGR_loop_step: "i < seq_size seq \<Longrightarrow> SGR_case env seq i t = (i', t') \<Longrightarrow>
   SGR_loop env seq i t = SGR_loop env seq (seq_next seq i') t'"
  by (subst SGR_loop.simps) simp

lemma SGR_loop_returns:
  assumes ok: "seq_ok seq"
  shows "\<exists>t'. SGR_loop env seq i t = Some t'"
proof (induction "unat (n_args seq) - unat i" arbitrary: i t rule: less_induct)
  case less
  show ?case
  proof (cases "i < seq_size seq")
    case False
    then show ?thesis by (simp add: SGR_loop_exit)
  next
    case True
    then have lt: "unat i < unat (n_args seq)"
      by (simp add: seq_size_def word_less_nat_alt)
    have n: "unat (n_args seq) \<le> 16"
      using ok by (simp add: seq_ok_def VTE_PARSER_ARG_MAX_def)
    obtain i' t' where c: "SGR_case env seq i t = (i', t')"
      by (cases "SGR_case env seq i t")
    have b: "unat i \<le> unat i' \<and> unat i' \<le> 21"
      using SGR_case_idx [OF ok _ c] lt n by simp
    have "unat i' < unat (seq_next seq i')"
      using seq_next_small [OF ok, of i' 21] b by simp
    then have "unat (n_args seq) - unat (seq_next seq i') < unat (n_args seq) - unat i"
      using b lt by arith
    from less [OF this] obtain t'' where "SGR_loop env seq (seq_next seq i') t' = Some t''"
      by blast
    then show ?thesis
      using SGR_loop_step [OF True c] by simp
  qed
qed

lemma next_out_of_range: "\<not> idx < seq_size seq \<Longrightarrow> seq_next seq idx = idx + 1"
  by (simp add: seq_next.simps [of seq idx] param_nonfinal_def)

lemmas seq_ev = mk_seq_def param_def param_nonfinal_def param_default_def seq_size_def
  vte_seq_arg_nonfinal_def vte_seq_arg_value_def vte_seq_arg_default_def
  vte_seq_arg_value_final_def S_def P_def PD_def SD_def
  VTE_PARSER_ARG_MAX_def seq_next.simps default_arg_def

subsection \<open>C9: the next block lies further on, and SGR terminates\<close>

text \<open>
  C9, as amended. For every well-formed sequence (at most 16 parameters in use):
  \<open>Sequence::next(idx)\<close> is strictly greater than \<open>idx\<close> for every index other than
  \<open>UINT_MAX\<close>; for an index at or beyond \<open>size()\<close> it is \<open>idx + 1\<close>; and the loop of the
  SGR handler returns for every environment and terminal state.
\<close>

theorem seq_next_increases_SGR_terminates:
  assumes "seq_ok seq"
  shows "(\<forall>idx. idx \<noteq> - 1 \<longrightarrow> idx < seq_next seq idx)
       \<and> (\<forall>idx. \<not> idx < seq_size seq \<longrightarrow> seq_next seq idx = idx + 1)
       \<and> (\<forall>env t. \<exists>t'. SGR env seq t = Some t')"
proof (intro conjI allI impI)
  fix idx :: uint
  assume ne: "idx \<noteq> - 1"
  have "unat (n_args seq) < 4294967295"
    using assms by (simp add: seq_ok_def VTE_PARSER_ARG_MAX_def)
  from seq_next_bounds [OF this ne] show "idx < seq_next seq idx"
    by (simp add: word_less_nat_alt)
next
  fix idx
  assume "\<not> idx < seq_size seq"
  then show "seq_next seq idx = idx + 1"
    by (rule next_out_of_range)
next
  fix env t
  from SGR_loop_returns [OF assms, of env 0 t] show "\<exists>t'. SGR env seq t = Some t'"
    by (auto simp: SGR_def)
qed

theorem seq_next_increases_SGR_terminates_witness:
  "seq_ok (mk_seq [S 38, S 2, P 7, P 1])
   \<and> (0 :: uint) \<noteq> - 1 \<and> 0 < seq_next (mk_seq [S 38, S 2, P 7, P 1]) 0
   \<and> \<not> 7 < seq_size (mk_seq [S 38, S 2, P 7, P 1])
   \<and> seq_next (mk_seq [S 38, S 2, P 7, P 1]) 7 = 7 + 1
   \<and> (\<forall>env t. \<exists>t'. SGR env (mk_seq [S 38, S 2, P 7, P 1]) t = Some t')"
proof -
  have ok: "seq_ok (mk_seq [S 38, S 2, P 7, P 1])"
    by (simp add: seq_ok_def mk_seq_def VTE_PARSER_ARG_MAX_def)
  have sz: "\<not> 7 < seq_size (mk_seq [S 38, S 2, P 7, P 1])"
    by (simp add: seq_size_def mk_seq_def)
  show ?thesis
    using seq_next_increases_SGR_terminates [OF ok] ok sz by simp
qed

text \<open>
  C9 as stated fails at the last index: \<open>next(UINT_MAX)\<close> is \<open>0\<close>, since the index is
  out of range and \<open>++idx\<close> wraps around.
\<close>

theorem seq_next_wraps_at_max:
  "seq_ok (mk_seq []) \<and> seq_next (mk_seq []) (- 1) = 0
   \<and> \<not> (- 1 < seq_next (mk_seq []) (- 1))"
  by (simp add: seq_ok_def mk_seq_def VTE_PARSER_ARG_MAX_def seq_next.simps
      param_nonfinal_def seq_size_def)

subsection \<open>C1: the three spellings of an RGB foreground colour\<close>

lemma SGR_single_block:
  assumes "0 < seq_size sq" and "SGR_case env sq 0 t = (i', t')"
    and "\<not> seq_next sq i' < seq_size sq"
  shows "SGR env sq t = Some (save_colors t')"
proof -
  have "SGR_loop env sq 0 t = SGR_loop env sq (seq_next sq i') t'"
    using assms(1,2) by (rule SGR_loop_step)
  also have "\<dots> = Some t'"
    using assms(3) by (rule SGR_loop_exit)
  finally show ?thesis
    using assms(1) by (simp add: SGR_def)
qed

lemma SGR_case_38:
  "param seq i (- 1) = 38 \<Longrightarrow> SGR_case env seq i t =
     (case seq_parse_sgr_color env 8 8 8 seq i of
        (i', Some c) \<Rightarrow> (i', set_fore c t) | (i', None) \<Rightarrow> (i', t))"
  by (simp add: SGR_case_def)

lemma SGR_case_48:
  "param seq i (- 1) = 48 \<Longrightarrow> SGR_case env seq i t =
     (case seq_parse_sgr_color env 8 8 8 seq i of
        (i', Some c) \<Rightarrow> (i', set_back c t) | (i', None) \<Rightarrow> (i', t))"
  by (simp add: SGR_case_def)

lemma SGR_case_58:
  "param seq i (- 1) = 58 \<Longrightarrow> SGR_case env seq i t =
     (case seq_parse_sgr_color env 4 5 4 seq i of
        (i', Some c) \<Rightarrow> (i', set_deco c t) | (i', None) \<Rightarrow> (i', t))"
  by (simp add: SGR_case_def)

lemma parse_semicolon_rgb:
  "seq_parse_sgr_color env r g b (mk_seq [P 38, P 2, P 10, P 20, P 30]) 0
     = (4, Some (VTE_RGB_COLOR env r g b 10 20 30))"
  by (simp add: seq_parse_sgr_color_def seq_ev Let_def)

lemma parse_colon_rgb:
  "seq_parse_sgr_color env r g b (mk_seq [S 38, S 2, S 10, S 20, P 30]) 0
     = (4, Some (VTE_RGB_COLOR env r g b 10 20 30))"
  by (simp add: seq_parse_sgr_color_def seq_ev Let_def)

lemma parse_colon_rgb_space:
  "seq_parse_sgr_color env r g b (mk_seq [S 38, S 2, SD, S 10, S 20, P 30]) 0
     = (5, Some (VTE_RGB_COLOR env r g b 10 20 30))"
  by (simp add: seq_parse_sgr_color_def seq_ev Let_def)

lemma parse_colon_rgb_bad_space:
  "seq_parse_sgr_color env r g b (mk_seq [S 38, S 2, S 1, S 10, S 20, P 30]) 0 = (2, None)"
  by (simp add: seq_parse_sgr_color_def seq_ev Let_def)

text \<open>
  C1. For every terminal state (and every value of the absent colour macros), SGR with
  \<open>38;2;10;20;30\<close>, with \<open>38:2:10:20:30\<close> and with \<open>38:2::10:20:30\<close> returns the same
  state, whose foreground colour is \<open>VTE_RGB_COLOR(8, 8, 8, 10, 20, 30)\<close>; with
  \<open>38:2:1:10:20:30\<close> the colour parse fails and the foreground colour is the one before.
\<close>

theorem sgr_colour_grammar_equivalence:
  "SGR env (mk_seq [P 38, P 2, P 10, P 20, P 30]) t
     = Some (save_colors (set_fore (VTE_RGB_COLOR env 8 8 8 10 20 30) t))
   \<and> SGR env (mk_seq [S 38, S 2, S 10, S 20, P 30]) t
     = Some (save_colors (set_fore (VTE_RGB_COLOR env 8 8 8 10 20 30) t))
   \<and> SGR env (mk_seq [S 38, S 2, SD, S 10, S 20, P 30]) t
     = Some (save_colors (set_fore (VTE_RGB_COLOR env 8 8 8 10 20 30) t))
   \<and> fore (m_defaults (save_colors (set_fore (VTE_RGB_COLOR env 8 8 8 10 20 30) t)))
     = VTE_RGB_COLOR env 8 8 8 10 20 30
   \<and> snd (seq_parse_sgr_color env 8 8 8 (mk_seq [S 38, S 2, S 1, S 10, S 20, P 30]) 0) = None
   \<and> SGR env (mk_seq [S 38, S 2, S 1, S 10, S 20, P 30]) t = Some (save_colors t)
   \<and> fore (m_defaults (save_colors t)) = fore (m_defaults t)"
proof (intro conjI)
  let ?c = "VTE_RGB_COLOR env 8 8 8 10 20 30"
  show "SGR env (mk_seq [P 38, P 2, P 10, P 20, P 30]) t = Some (save_colors (set_fore ?c t))"
  proof (rule SGR_single_block)
    show "SGR_case env (mk_seq [P 38, P 2, P 10, P 20, P 30]) 0 t = (4, set_fore ?c t)"
      by (subst SGR_case_38) (simp_all add: parse_semicolon_rgb, simp add: seq_ev)
  qed (simp_all add: seq_ev)
  show "SGR env (mk_seq [S 38, S 2, S 10, S 20, P 30]) t = Some (save_colors (set_fore ?c t))"
  proof (rule SGR_single_block)
    show "SGR_case env (mk_seq [S 38, S 2, S 10, S 20, P 30]) 0 t = (4, set_fore ?c t)"
      by (subst SGR_case_38) (simp_all add: parse_colon_rgb, simp add: seq_ev)
  qed (simp_all add: seq_ev)
  show "SGR env (mk_seq [S 38, S 2, SD, S 10, S 20, P 30]) t = Some (save_colors (set_fore ?c t))"
  proof (rule SGR_single_block)
    show "SGR_case env (mk_seq [S 38, S 2, SD, S 10, S 20, P 30]) 0 t = (5, set_fore ?c t)"
      by (subst SGR_case_38) (simp_all add: parse_colon_rgb_space, simp add: seq_ev)
  qed (simp_all add: seq_ev)
  show "fore (m_defaults (save_colors (set_fore ?c t))) = ?c"
    by (simp add: save_colors_def set_fore_def upd_defaults_def)
  show "snd (seq_parse_sgr_color env 8 8 8 (mk_seq [S 38, S 2, S 1, S 10, S 20, P 30]) 0) = None"
    by (simp add: parse_colon_rgb_bad_space)
  show "SGR env (mk_seq [S 38, S 2, S 1, S 10, S 20, P 30]) t = Some (save_colors t)"
  proof (rule SGR_single_block)
    show "SGR_case env (mk_seq [S 38, S 2, S 1, S 10, S 20, P 30]) 0 t = (2, t)"
      by (subst SGR_case_38) (simp_all add: parse_colon_rgb_bad_space, simp add: seq_ev)
  qed (simp_all add: seq_ev)
  show "fore (m_defaults (save_colors t)) = fore (m_defaults t)"
    by (simp add: save_colors_def)
qed


theorem sgr_colour_grammar_equivalence_witness:
  "\<forall>env t.
     SGR env (mk_seq [P 38, P 2, P 10, P 20, P 30]) t
       = SGR env (mk_seq [S 38, S 2, S 10, S 20, P 30]) t
   \<and> SGR env (mk_seq [S 38, S 2, S 10, S 20, P 30]) t
       = SGR env (mk_seq [S 38, S 2, SD, S 10, S 20, P 30]) t
   \<and> map_option (\<lambda>t'. fore (m_defaults t')) (SGR env (mk_seq [P 38, P 2, P 10, P 20, P 30]) t)
       = Some (VTE_RGB_COLOR env 8 8 8 10 20 30)
   \<and> map_option (\<lambda>t'. fore (m_defaults t')) (SGR env (mk_seq [S 38, S 2, S 1, S 10, S 20, P 30]) t)
       = Some (fore (m_defaults t))"
proof (intro allI)
  fix env t
  from sgr_colour_grammar_equivalence [of env t]
  show "SGR env (mk_seq [P 38, P 2, P 10, P 20, P 30]) t
       = SGR env (mk_seq [S 38, S 2, S 10, S 20, P 30]) t
   \<and> SGR env (mk_seq [S 38, S 2, S 10, S 20, P 30]) t
       = SGR env (mk_seq [S 38, S 2, SD, S 10, S 20, P 30]) t
   \<and> map_option (\<lambda>t'. fore (m_defaults t')) (SGR env (mk_seq [P 38, P 2, P 10, P 20, P 30]) t)
       = Some (VTE_RGB_COLOR env 8 8 8 10 20 30)
   \<and> map_option (\<lambda>t'. fore (m_defaults t')) (SGR env (mk_seq [S 38, S 2, S 1, S 10, S 20, P 30]) t)
       = Some (fore (m_defaults t))"
    by simp
qed

subsection \<open>C2: a colour with a component out of range is skipped, the rest goes on\<close>

lemma and_ff_iff: "(x AND 0xff) = x \<longleftrightarrow> in_byte_range (x :: int)"
proof -
  have "x AND 255 = take_bit 8 x"
    by (simp add: take_bit_eq_mask mask_eq_exp_minus_1)
  then show ?thesis
    by (auto simp add: take_bit_int_eq_self_iff in_byte_range_def)
qed

lemma parse_colon_def:
  assumes nf: "param_nonfinal seq i" and p2: "param seq (i + 1) (- 1) = 2"
    and n: "n = seq_next seq (i + 1) - (i + 1)"
    and n4: "4 \<le> n" and cs: "n = 4 \<or> param_default seq (i + 2)"
    and k: "k = (if 4 < n then i + 2 else i + 1)"
  shows "seq_parse_sgr_color env rb gb bb seq i =
     (let red = param seq (k + 1) (- 1); green = param seq (k + 2) (- 1);
          blue = param seq (k + 3) (- 1)
      in if in_byte_range red \<and> in_byte_range green \<and> in_byte_range blue
         then (k + 3, Some (VTE_RGB_COLOR env rb gb bb red green blue))
         else (k + 3, None))"
proof (cases "4 < n")
  case True
  then have "\<not> n < 4" "n \<noteq> 4" by auto
  with nf p2 n4 cs k True show ?thesis
    unfolding seq_parse_sgr_color_def Let_def n [symmetric]
    by (simp add: and_ff_iff add.assoc)
next
  case False
  with n4 have "n = 4" by auto
  with nf p2 k show ?thesis
    unfolding seq_parse_sgr_color_def Let_def n [symmetric]
    by (simp add: and_ff_iff add.assoc)
qed

lemma parse_semicolon_def:
  assumes "\<not> param_nonfinal seq i" and "param seq (seq_next seq i) (- 1) = 2"
    and "n2 = seq_next seq (seq_next seq i)" and "n3 = seq_next seq n2" and "n4 = seq_next seq n3"
  shows "seq_parse_sgr_color env rb gb bb seq i =
     (let red = param seq n2 (- 1); green = param seq n3 (- 1); blue = param seq n4 (- 1)
      in if in_byte_range red \<and> in_byte_range green \<and> in_byte_range blue
         then (n4, Some (VTE_RGB_COLOR env rb gb bb red green blue))
         else (n4, None))"
  using assms by (simp add: seq_parse_sgr_color_def Let_def and_ff_iff)

lemma rgb_spec_colon:
  assumes nf: "param_nonfinal seq i" and n: "n = seq_next seq (i + 1) - (i + 1)"
    and k: "k = (if 4 < n then i + 2 else i + 1)"
    and sp: "rgb_spec seq i = Some (r, g, b, e)"
  shows "param seq (i + 1) (- 1) = 2 \<and> 4 \<le> n \<and> (n = 4 \<or> param_default seq (i + 2))
       \<and> r = param seq (k + 1) (- 1) \<and> g = param seq (k + 2) (- 1)
       \<and> b = param seq (k + 3) (- 1) \<and> e = k + 3"
  using sp nf unfolding rgb_spec_def Let_def n [symmetric] k [symmetric]
  by (auto split: if_splits)

lemma parse_out_of_range:
  assumes "rgb_spec seq i = Some (r, g, b, e)"
    and "\<not> (in_byte_range r \<and> in_byte_range g \<and> in_byte_range b)"
  shows "seq_parse_sgr_color env rb gb bb seq i = (e, None)"
proof (cases "param_nonfinal seq i")
  case True
  define n where "n = seq_next seq (i + 1) - (i + 1)"
  define k where "k = (if 4 < n then i + 2 else i + 1)"
  note c = rgb_spec_colon [OF True n_def k_def assms(1)]
  have "seq_parse_sgr_color env rb gb bb seq i =
     (if in_byte_range r \<and> in_byte_range g \<and> in_byte_range b
      then (e, Some (VTE_RGB_COLOR env rb gb bb r g b)) else (e, None))"
    using parse_colon_def [OF True _ n_def _ _ k_def, of env rb gb bb] c
    by (simp add: Let_def)
  then show ?thesis
    using assms(2) by simp
next
  case False
  define n2 where "n2 = seq_next seq (seq_next seq i)"
  define n3 where "n3 = seq_next seq n2"
  define n4 where "n4 = seq_next seq n3"
  from assms(1) False have c: "param seq (seq_next seq i) (- 1) = 2"
    and v: "r = param seq n2 (- 1)" "g = param seq n3 (- 1)" "b = param seq n4 (- 1)" "e = n4"
    by (auto simp add: rgb_spec_def Let_def n2_def n3_def n4_def split: if_splits)
  show ?thesis
    using assms(2) v
    by (simp add: parse_semicolon_def [OF False c n2_def n3_def n4_def] Let_def)
qed


lemma block_len_ge4:
  assumes "4 \<le> seq_next seq j - j"
  shows "param_nonfinal seq j \<and> param_nonfinal seq (j + 1) \<and> param_nonfinal seq (j + 2)"
proof -
  have a: "param_nonfinal seq j"
  proof (rule ccontr)
    assume "\<not> param_nonfinal seq j"
    then have "seq_next seq j - j = 1" by (simp add: seq_next.simps [of seq j])
    with assms show False by (simp add: word_le_nat_alt word_less_nat_alt)
  qed
  have b: "param_nonfinal seq (j + 1)"
  proof (rule ccontr)
    assume "\<not> param_nonfinal seq (j + 1)"
    then have "seq_next seq j - j = 2"
      using a by (simp add: seq_next.simps [of seq j] seq_next.simps [of seq "j + 1"])
    with assms show False by (simp add: word_le_nat_alt word_less_nat_alt)
  qed
  have c: "param_nonfinal seq (j + 2)"
  proof (rule ccontr)
    assume "\<not> param_nonfinal seq (j + 2)"
    then have "seq_next seq j - j = 3"
      using a b by (simp add: seq_next.simps [of seq j] seq_next.simps [of seq "j + 1"]
          seq_next.simps [of seq "j + 2"] add.assoc)
    with assms show False by (simp add: word_le_nat_alt word_less_nat_alt)
  qed
  from a b c show ?thesis by simp
qed

lemma block_len_gt4:
  assumes "4 < seq_next seq j - j"
  shows "param_nonfinal seq (j + 3)"
proof (rule ccontr)
  assume n: "\<not> param_nonfinal seq (j + 3)"
  from assms have "4 \<le> seq_next seq j - j" by simp
  from block_len_ge4 [OF this] n have "seq_next seq j - j = 4"
    by (simp add: seq_next.simps [of seq j] seq_next.simps [of seq "j + 1"]
          seq_next.simps [of seq "j + 2"] seq_next.simps [of seq "j + 3"] add.assoc)
  with assms show False by (simp add: word_le_nat_alt word_less_nat_alt)
qed

lemma rgb_spec_colon_same_block:
  assumes nf: "param_nonfinal seq i" and sp: "rgb_spec seq i = Some (r, g, b, e)"
  shows "seq_next seq e = seq_next seq i"
proof -
  define n where "n = seq_next seq (i + 1) - (i + 1)"
  define k where "k = (if 4 < n then i + 2 else i + 1)"
  note c = rgb_spec_colon [OF nf n_def k_def sp]
  from c have "4 \<le> seq_next seq (i + 1) - (i + 1)" by (simp add: n_def)
  from block_len_ge4 [OF this]
  have f: "param_nonfinal seq (i + 1)" "param_nonfinal seq (i + 2)" "param_nonfinal seq (i + 3)"
    by (simp_all add: add.assoc)
  have s4: "seq_next seq i = seq_next seq (i + 4)"
    using nf f by (simp add: seq_next.simps [of seq i] seq_next.simps [of seq "i + 1"]
          seq_next.simps [of seq "i + 2"] seq_next.simps [of seq "i + 3"] add.assoc)
  show ?thesis
  proof (cases "4 < n")
    case False
    then have "e = i + 4" using c by (simp add: k_def add.assoc)
    with s4 show ?thesis by simp
  next
    case True
    then have "4 < seq_next seq (i + 1) - (i + 1)" by (simp add: n_def)
    from block_len_gt4 [OF this] have "param_nonfinal seq (i + 4)" by (simp add: add.assoc)
    then have "seq_next seq (i + 4) = seq_next seq (i + 5)"
      by (simp add: seq_next.simps [of seq "i + 4"] add.assoc)
    moreover have "e = i + 5" using c True by (simp add: k_def add.assoc)
    ultimately show ?thesis using s4 by simp
  qed
qed

lemma SGR_case_colour:
  assumes "param seq i (- 1) \<in> {38, 48, 58}"
    and "\<And>rb gb bb. seq_parse_sgr_color env rb gb bb seq i = (e, None)"
  shows "SGR_case env seq i t = (e, t)"
  using assms by (auto simp: SGR_case_def)

lemma SGR_loop_last_bold:
  assumes "j < seq_size seq" and "param seq j (- 1) = 1"
    and "\<not> seq_next seq j < seq_size seq"
  shows "SGR_loop env seq j t = Some (upd_defaults (\<lambda>a. a\<lparr>bold := True\<rparr>) t)"
proof -
  have c: "SGR_case env seq j t = (j, upd_defaults (\<lambda>a. a\<lparr>bold := True\<rparr>) t)"
    using assms(2) by (simp add: SGR_case_def)
  have "SGR_loop env seq j t
      = SGR_loop env seq (seq_next seq j) (upd_defaults (\<lambda>a. a\<lparr>bold := True\<rparr>) t)"
    using assms(1) c by (rule SGR_loop_step)
  also have "\<dots> = Some (upd_defaults (\<lambda>a. a\<lparr>bold := True\<rparr>) t)"
    using assms(3) by (rule SGR_loop_exit)
  finally show ?thesis .
qed

text \<open>
  C2. When the loop of SGR stands at a 38, 48 or 58 that starts a direct-colour
  specification with a red, green or blue component outside \<open>0..255\<close>, the body of the
  loop leaves the whole terminal state as it is (so the colour attribute too), and
  the loop goes on with the block after the specification: in the colon grammar that
  is the block after the one of the 38, 48 or 58. The blocks after it have their
  effect: when the next block is a final \<open>1\<close>, the loop returns a state whose attributes
  are bold and whose foreground, background and decoration colours are the ones
  before.
\<close>

theorem sgr_out_of_range_colour_skipped:
  assumes "i < seq_size seq"
    and "param seq i (- 1) \<in> {38, 48, 58}"
    and "rgb_spec seq i = Some (r, g, b, e)"
    and "\<not> (in_byte_range r \<and> in_byte_range g \<and> in_byte_range b)"
  shows "SGR_case env seq i t = (e, t)
       \<and> SGR_loop env seq i t = SGR_loop env seq (seq_next seq e) t
       \<and> (param_nonfinal seq i \<longrightarrow> seq_next seq e = seq_next seq i)
       \<and> (seq_next seq e < seq_size seq \<and> param seq (seq_next seq e) (- 1) = 1
            \<and> \<not> seq_next seq (seq_next seq e) < seq_size seq \<longrightarrow>
          (\<exists>t'. SGR_loop env seq i t = Some t'
               \<and> bold (m_defaults t')
               \<and> fore (m_defaults t') = fore (m_defaults t)
               \<and> back_c (m_defaults t') = back_c (m_defaults t)
               \<and> deco (m_defaults t') = deco (m_defaults t)))"
proof (intro conjI impI)
  show c: "SGR_case env seq i t = (e, t)"
    using assms(2) parse_out_of_range [OF assms(3,4)] by (rule SGR_case_colour)
  show l: "SGR_loop env seq i t = SGR_loop env seq (seq_next seq e) t"
    using assms(1) c by (rule SGR_loop_step)
  show "seq_next seq e = seq_next seq i" if "param_nonfinal seq i"
    using that assms(3) by (rule rgb_spec_colon_same_block)
  show "\<exists>t'. SGR_loop env seq i t = Some t'
               \<and> bold (m_defaults t')
               \<and> fore (m_defaults t') = fore (m_defaults t)
               \<and> back_c (m_defaults t') = back_c (m_defaults t)
               \<and> deco (m_defaults t') = deco (m_defaults t)"
    if h: "seq_next seq e < seq_size seq \<and> param seq (seq_next seq e) (- 1) = 1
            \<and> \<not> seq_next seq (seq_next seq e) < seq_size seq"
  proof -
    from h have "SGR_loop env seq (seq_next seq e) t
        = Some (upd_defaults (\<lambda>a. a\<lparr>bold := True\<rparr>) t)"
      by (intro SGR_loop_last_bold) simp_all
    with l show ?thesis
      by (simp add: upd_defaults_def)
  qed
qed

theorem sgr_out_of_range_colour_skipped_witness:
  "1 < seq_size (mk_seq [P 1, P 38, P 2, P 300, P 20, P 30, P 4])
   \<and> param (mk_seq [P 1, P 38, P 2, P 300, P 20, P 30, P 4]) 1 (- 1) \<in> {38, 48, 58}
   \<and> rgb_spec (mk_seq [P 1, P 38, P 2, P 300, P 20, P 30, P 4]) 1 = Some (300, 20, 30, 5)
   \<and> \<not> (in_byte_range 300 \<and> in_byte_range 20 \<and> in_byte_range 30)
   \<and> (\<forall>env t. SGR_case env (mk_seq [P 1, P 38, P 2, P 300, P 20, P 30, P 4]) 1 t = (5, t))
   \<and> (\<forall>env t. SGR env (mk_seq [P 1, P 38, P 2, P 300, P 20, P 30, P 4]) t
         = Some (save_colors (upd_defaults (\<lambda>a. a\<lparr>underline := 1\<rparr>)
                   (upd_defaults (\<lambda>a. a\<lparr>bold := True\<rparr>) t))))
   \<and> (\<forall>env t. map_option
         (\<lambda>t'. (bold (m_defaults t'), underline (m_defaults t'), fore (m_defaults t'),
                dim (m_defaults t'), back_c (m_defaults t')))
         (SGR env (mk_seq [P 1, P 38, P 2, P 300, P 20, P 30, P 4]) t)
         = Some (True, 1, fore (m_defaults t), dim (m_defaults t), back_c (m_defaults t)))
   \<and> 0 < seq_size (mk_seq [S 48, S 2, S 10, S 256, P 30, P 1])
   \<and> param (mk_seq [S 48, S 2, S 10, S 256, P 30, P 1]) 0 (- 1) \<in> {38, 48, 58}
   \<and> rgb_spec (mk_seq [S 48, S 2, S 10, S 256, P 30, P 1]) 0 = Some (10, 256, 30, 4)
   \<and> \<not> (in_byte_range 10 \<and> in_byte_range 256 \<and> in_byte_range 30)
   \<and> param_nonfinal (mk_seq [S 48, S 2, S 10, S 256, P 30, P 1]) 0
   \<and> seq_next (mk_seq [S 48, S 2, S 10, S 256, P 30, P 1]) 4
       = seq_next (mk_seq [S 48, S 2, S 10, S 256, P 30, P 1]) 0
   \<and> (\<forall>env t. SGR_case env (mk_seq [S 48, S 2, S 10, S 256, P 30, P 1]) 0 t = (4, t))
   \<and> seq_next (mk_seq [S 48, S 2, S 10, S 256, P 30, P 1]) 4 = 5
   \<and> param (mk_seq [S 48, S 2, S 10, S 256, P 30, P 1]) 5 (- 1) = 1
   \<and> \<not> seq_next (mk_seq [S 48, S 2, S 10, S 256, P 30, P 1]) 5
         < seq_size (mk_seq [S 48, S 2, S 10, S 256, P 30, P 1])
   \<and> (\<forall>env t. map_option
         (\<lambda>t'. (bold (m_defaults t'), back_c (m_defaults t'), fore (m_defaults t')))
         (SGR env (mk_seq [S 48, S 2, S 10, S 256, P 30, P 1]) t)
         = Some (True, back_c (m_defaults t), fore (m_defaults t)))"
proof -
  let ?A = "mk_seq [P 1, P 38, P 2, P 300, P 20, P 30, P 4]"
  let ?B = "mk_seq [S 48, S 2, S 10, S 256, P 30, P 1]"
  have a1: "1 < seq_size ?A" and a2: "param ?A 1 (- 1) \<in> {38, 48, 58}"
    and a3: "rgb_spec ?A 1 = Some (300, 20, 30, 5)"
    by (simp_all add: rgb_spec_def seq_ev Let_def)
  have r1: "\<not> (in_byte_range 300 \<and> in_byte_range 20 \<and> in_byte_range 30)"
    and r2: "\<not> (in_byte_range 10 \<and> in_byte_range 256 \<and> in_byte_range 30)"
    by (simp_all add: in_byte_range_def)
  have b1: "0 < seq_size ?B" and b2: "param ?B 0 (- 1) \<in> {38, 48, 58}"
    and b3: "rgb_spec ?B 0 = Some (10, 256, 30, 4)" and b4: "param_nonfinal ?B 0"
    by (simp_all add: rgb_spec_def seq_ev Let_def)
  have b5: "seq_next ?B 4 = 5" and b6: "param ?B 5 (- 1) = 1"
    and b7: "\<not> seq_next ?B 5 < seq_size ?B" and b8: "5 < seq_size ?B"
    by (simp_all add: seq_ev)
  note A = sgr_out_of_range_colour_skipped [OF a1 a2 a3 r1]
  note B = sgr_out_of_range_colour_skipped [OF b1 b2 b3 r2]
  have whole: "SGR env ?A t = Some (save_colors (upd_defaults (\<lambda>a. a\<lparr>underline := 1\<rparr>)
                   (upd_defaults (\<lambda>a. a\<lparr>bold := True\<rparr>) t)))" for env t
  proof -
    let ?t1 = "upd_defaults (\<lambda>a. a\<lparr>bold := True\<rparr>) t"
    let ?t2 = "upd_defaults (\<lambda>a. a\<lparr>underline := 1\<rparr>) ?t1"
    have p0: "param ?A 0 (- 1) = 1" and p6: "param ?A 6 (- 1) = 4"
      and nf6: "\<not> param_nonfinal ?A 6" and sz: "seq_size ?A = 7"
      and n0: "seq_next ?A 0 = 1" and n5: "seq_next ?A 5 = 6" and n6: "seq_next ?A 6 = 7"
      by (simp_all add: seq_ev)
    have c0: "SGR_case env ?A 0 t = (0, ?t1)"
      by (simp add: SGR_case_def p0)
    have c6: "SGR_case env ?A 6 ?t1 = (6, ?t2)"
      by (simp add: SGR_case_def p6 nf6)
    have "SGR_loop env ?A 0 t = SGR_loop env ?A 1 ?t1"
      using SGR_loop_step [OF _ c0] by (simp add: sz n0)
    also have "\<dots> = SGR_loop env ?A 6 ?t1"
      using A [of env ?t1] by (simp add: n5)
    also have "\<dots> = SGR_loop env ?A 7 ?t2"
      using SGR_loop_step [OF _ c6] by (simp add: sz n6)
    also have "\<dots> = Some ?t2"
      by (simp add: SGR_loop_exit sz)
    finally show ?thesis
      by (simp add: SGR_def sz)
  qed
  have projA: "map_option
         (\<lambda>t'. (bold (m_defaults t'), underline (m_defaults t'), fore (m_defaults t'),
                dim (m_defaults t'), back_c (m_defaults t')))
         (SGR env ?A t)
         = Some (True, 1, fore (m_defaults t), dim (m_defaults t), back_c (m_defaults t))" for env t
    by (simp add: whole save_colors_def upd_defaults_def)
  have projB: "map_option
         (\<lambda>t'. (bold (m_defaults t'), back_c (m_defaults t'), fore (m_defaults t')))
         (SGR env ?B t)
         = Some (True, back_c (m_defaults t), fore (m_defaults t))" for env t
  proof -
    have "\<exists>t'. SGR_loop env ?B 0 t = Some t' \<and> bold (m_defaults t')
        \<and> fore (m_defaults t') = fore (m_defaults t)
        \<and> back_c (m_defaults t') = back_c (m_defaults t)
        \<and> deco (m_defaults t') = deco (m_defaults t)"
      using B [of env t, THEN conjunct2, THEN conjunct2, THEN conjunct2, unfolded b5]
        b6 b7 b8 by blast
    then obtain t' where "SGR_loop env ?B 0 t = Some t'" and "bold (m_defaults t')"
      and "fore (m_defaults t') = fore (m_defaults t)"
      and "back_c (m_defaults t') = back_c (m_defaults t)"
      by blast
    moreover have "seq_size ?B \<noteq> 0"
      by (simp add: seq_ev)
    ultimately show ?thesis
      by (simp add: SGR_def save_colors_def)
  qed
  show ?thesis
    using a1 a2 a3 r1 b1 b2 b3 r2 b4 b5 b6 b7 A B whole projA projB by simp
qed

subsection \<open>C6: what collect writes and when it returns true\<close>

lemma collect_loop_slots:
  "snd (collect_loop seq s n d) = map (\<lambda>k. param seq ((seq_next seq ^^ k) s) d) [0..<n]"
proof (induction n arbitrary: s)
  case 0
  show ?case by simp
next
  case (Suc n)
  have a: "map (\<lambda>k. param seq ((seq_next seq ^^ k) s) d) [0..<Suc n]
      = param seq s d # map (\<lambda>k. param seq ((seq_next seq ^^ k) (seq_next seq s)) d) [0..<n]"
    by (simp add: upt_conv_Cons map_Suc_upt [symmetric] funpow_swap1 del: upt_Suc)
  have "snd (collect_loop seq s (Suc n) d)
      = param seq s d # map (\<lambda>k. param seq ((seq_next seq ^^ k) (seq_next seq s)) d) [0..<n]"
    using Suc.IH [of "seq_next seq s"] by (auto simp: Let_def split: prod.splits)
  then show ?case
    by (simp only: a)
qed

lemma seq_next_step:
  assumes ok: "seq_ok seq" and s: "unat s < 4294967295"
  shows "Suc (unat s) \<le> unat (seq_next seq s)"
    and "unat (seq_next seq s) \<le> max (Suc (unat s)) 17"
    and "unat (seq_next seq s) = Suc (unat s) \<longleftrightarrow> \<not> param_nonfinal seq s"
proof -
  have n: "unat (n_args seq) \<le> 16"
    using ok by (simp add: seq_ok_def VTE_PARSER_ARG_MAX_def)
  have ne: "s \<noteq> - 1" using s unat_max32 by simp
  have b: "unat s < unat (seq_next seq s) \<and>
     unat (seq_next seq s) \<le> max (Suc (unat s)) (Suc (unat (n_args seq)))"
    using seq_next_bounds [of seq s] n ne by simp
  then show "Suc (unat s) \<le> unat (seq_next seq s)" by simp
  from b n show "unat (seq_next seq s) \<le> max (Suc (unat s)) 17"
    by (auto simp: max_def split: if_splits)
  show "unat (seq_next seq s) = Suc (unat s) \<longleftrightarrow> \<not> param_nonfinal seq s"
  proof (cases "param_nonfinal seq s")
    case False
    then show ?thesis using ne by (simp add: seq_next.simps [of seq s] unat_succ_ne)
  next
    case True
    then have lt: "unat s < unat (n_args seq)"
      by (simp add: param_nonfinal_less word_less_nat_alt [symmetric])
    have s1: "unat (s + 1) = Suc (unat s)" using ne by (simp add: unat_succ_ne)
    then have "s + 1 \<noteq> - 1" using lt n unat_max32 [of "s + 1"] by simp
    from seq_next_bounds [of seq "s + 1"] this n
    have "unat (s + 1) < unat (seq_next seq (s + 1))" by simp
    then show ?thesis using True s1 by (simp add: seq_next.simps [of seq s])
  qed
qed

lemma collect_loop_index:
  assumes ok: "seq_ok seq"
  shows "max (unat s) 17 + n < 4294967296 \<Longrightarrow>
     unat s + n \<le> unat (fst (collect_loop seq s n d)) \<and>
     (unat (fst (collect_loop seq s n d)) = unat s + n
        \<longleftrightarrow> (\<forall>k<n. \<not> param_nonfinal seq (s + of_nat k)))"
proof (induction n arbitrary: s)
  case 0
  show ?case by simp
next
  case (Suc n)
  let ?s' = "seq_next seq s"
  have s: "unat s < 4294967295" using Suc.prems by simp
  note st = seq_next_step [OF ok s]
  have "max (unat ?s') 17 + n < 4294967296"
    using st(2) Suc.prems by simp
  note IH = Suc.IH [OF this]
  have e: "fst (collect_loop seq s (Suc n) d) = fst (collect_loop seq ?s' n d)"
    by (simp add: Let_def split: prod.splits)
  have ne: "s \<noteq> - 1" using s unat_max32 by simp
  show ?case
  proof (cases "param_nonfinal seq s")
    case True
    then have "Suc (unat s) < unat ?s'" using st(1,3) by simp
    then have "unat s + Suc n < unat (fst (collect_loop seq s (Suc n) d))"
      using IH e by simp
    moreover have "\<not> (\<forall>k<Suc n. \<not> param_nonfinal seq (s + of_nat k))"
      using True by (auto intro: exI [of _ 0])
    ultimately show ?thesis by simp
  next
    case False
    then have s': "?s' = s + 1" by (simp add: seq_next.simps [of seq s])
    have u: "unat ?s' = Suc (unat s)" using st(3) False by simp
    have "(\<forall>k<Suc n. \<not> param_nonfinal seq (s + of_nat k))
        \<longleftrightarrow> (\<forall>k<n. \<not> param_nonfinal seq (?s' + of_nat k))"
    proof
      assume a: "\<forall>k<Suc n. \<not> param_nonfinal seq (s + of_nat k)"
      show "\<forall>k<n. \<not> param_nonfinal seq (?s' + of_nat k)"
      proof (intro allI impI)
        fix k assume "k < n"
        then have "\<not> param_nonfinal seq (s + of_nat (Suc k))" using a by blast
        then show "\<not> param_nonfinal seq (?s' + of_nat k)" by (simp add: s' ac_simps)
      qed
    next
      assume a: "\<forall>k<n. \<not> param_nonfinal seq (?s' + of_nat k)"
      show "\<forall>k<Suc n. \<not> param_nonfinal seq (s + of_nat k)"
      proof (intro allI impI)
        fix k assume k: "k < Suc n"
        show "\<not> param_nonfinal seq (s + of_nat k)"
        proof (cases k)
          case 0 then show ?thesis using False by simp
        next
          case (Suc j)
          then have "\<not> param_nonfinal seq (?s' + of_nat j)" using a k by simp
          then show ?thesis using Suc by (simp add: s' ac_simps)
        qed
      qed
    qed
    then show ?thesis using IH e u by simp
  qed
qed


text \<open>
  C6, as amended. For a well-formed sequence, a start index \<open>s\<close> and \<open>n\<close> slots (with
  \<open>s + n\<close> and \<open>n + 17\<close> below \<open>2^32\<close>, so that no index wraps around):
  the \<open>k\<close>-th slot receives the parameter at the start of the \<open>k\<close>-th block from \<open>s\<close>,
  which is the default value when that parameter is default-valued or out of range;
  and \<open>collect\<close> returns true exactly when the index has advanced by \<open>n\<close>, that is when
  none of the parameters at \<open>s, ..., s + n - 1\<close> is non-final: each of the \<open>n\<close> blocks
  is a single parameter.
\<close>

theorem collect_slots_and_result:
  assumes "seq_ok seq" and "unat s + n < 4294967296" and "n + 17 < 4294967296"
  shows "snd (collect seq s n d) = map (\<lambda>k. param seq ((seq_next seq ^^ k) s) d) [0..<n]
       \<and> (\<forall>idx. param_default seq idx \<longrightarrow> param seq idx d = d)
       \<and> (fst (collect seq s n d) \<longleftrightarrow> unat (fst (collect_loop seq s n d)) = unat s + n)
       \<and> (fst (collect seq s n d) \<longleftrightarrow> (\<forall>k<n. \<not> param_nonfinal seq (s + of_nat k)))"
proof -
  let ?e = "fst (collect_loop seq s n d)"
  have slots: "snd (collect seq s n d) = map (\<lambda>k. param seq ((seq_next seq ^^ k) s) d) [0..<n]"
    using collect_loop_slots [of seq s n d] by (simp add: collect_def case_prod_beta)
  have dflt: "\<forall>idx. param_default seq idx \<longrightarrow> param seq idx d = d"
    by (auto simp: param_default_def param_def vte_seq_arg_default_def vte_seq_arg_value_def
        split: if_splits)
  have "max (unat s) 17 + n < 4294967296"
    using assms(2,3) by simp
  note ix = collect_loop_index [OF assms(1) this, of d]
  then have "unat s \<le> unat ?e" by simp
  then have "s \<le> ?e" by (simp add: word_le_nat_alt)
  then have "unat (?e - s) = unat ?e - unat s" by (rule unat_sub)
  moreover have "unat ?e - unat s = n \<longleftrightarrow> unat ?e = unat s + n"
    using ix by arith
  ultimately have r: "fst (collect seq s n d) \<longleftrightarrow> unat ?e = unat s + n"
    by (simp add: collect_def case_prod_beta)
  from slots dflt r ix show ?thesis by simp
qed

theorem collect_slots_and_result_witness:
  "seq_ok (mk_seq [P 5, PD, S 1, P 2])
   \<and> unat (0 :: uint) + 2 < 4294967296 \<and> (2 :: nat) + 17 < 4294967296
   \<and> collect (mk_seq [P 5, PD, S 1, P 2]) 0 2 (- 1) = (True, [5, - 1])
   \<and> param_default (mk_seq [P 5, PD, S 1, P 2]) 1
   \<and> param (mk_seq [P 5, PD, S 1, P 2]) 1 (- 1) = - 1
   \<and> \<not> param_nonfinal (mk_seq [P 5, PD, S 1, P 2]) (0 + of_nat 0)
   \<and> \<not> param_nonfinal (mk_seq [P 5, PD, S 1, P 2]) (0 + of_nat 1)
   \<and> unat (fst (collect_loop (mk_seq [P 5, PD, S 1, P 2]) 0 2 (- 1))) = unat (0 :: uint) + 2"
proof -
  let ?q = "mk_seq [P 5, PD, S 1, P 2]"
  have ok: "seq_ok ?q" by (simp add: seq_ok_def mk_seq_def VTE_PARSER_ARG_MAX_def)
  have nf: "\<forall>k<2. \<not> param_nonfinal ?q (0 + of_nat k)"
    by (auto simp add: less_2_cases_iff seq_ev)
  have pd: "param_default ?q 1" by (simp add: seq_ev)
  have n0: "seq_next ?q 0 = 1" by (simp add: seq_ev)
  have sl: "map (\<lambda>k. param ?q ((seq_next ?q ^^ k) 0) (- 1)) [0..<2] = [5, - 1]"
    by (simp add: numeral_2_eq_2 n0) (simp add: seq_ev)
  from collect_slots_and_result [OF ok, of 0 2 "- 1"] nf pd sl ok
  show ?thesis
    by (auto simp add: less_2_cases_iff prod_eq_iff)
qed

text \<open>
  C6 as stated fails on \<open>1:2;3\<close>: \<open>collect(0, {a, b})\<close> consumes exactly two blocks
  (the index goes from 0 to 3 over the block \<open>1:2\<close> and the block \<open>3\<close>) and returns
  false, since the index has advanced by three.
\<close>

theorem collect_false_on_two_blocks:
  "collect (mk_seq [S 1, P 2, P 3]) 0 2 (- 1) = (False, [1, 3])
   \<and> fst (collect_loop (mk_seq [S 1, P 2, P 3]) 0 2 (- 1)) = 3
   \<and> blocks_between (mk_seq [S 1, P 2, P 3]) 0 3 = 2"
proof -
  let ?q = "mk_seq [S 1, P 2, P 3]"
  have n0: "seq_next ?q 0 = 2" and n2: "seq_next ?q 2 = 3"
    and p0: "param ?q 0 (- 1) = 1" and p2: "param ?q 2 (- 1) = 3"
    and f: "param_nonfinal ?q 0" "\<not> param_nonfinal ?q 1" "\<not> param_nonfinal ?q 2"
    by (simp_all add: seq_ev)
  have l: "collect_loop ?q 0 2 (- 1) = (3, [1, 3])"
    by (simp add: numeral_2_eq_2 n0 n2 p0 p2)
  have "[unat (0 :: uint) ..< unat (3 :: uint)] = [0, 1, 2]"
    by (simp add: upt_conv_Cons)
  then have "blocks_between ?q 0 3 = 2"
    using f by (simp add: blocks_between_def)
  with l show ?thesis by (simp add: collect_def)
qed

subsection \<open>C8: the number of a token\<close>

lemma is_digit_iff: "is_digit c \<longleftrightarrow> 48 \<le> (of_char c :: nat) \<and> (of_char c :: nat) \<le> 57"
proof
  assume "is_digit c"
  then show "48 \<le> (of_char c :: nat) \<and> (of_char c :: nat) \<le> 57"
    by (auto simp: is_digit_def)
next
  assume a: "48 \<le> (of_char c :: nat) \<and> (of_char c :: nat) \<le> 57"
  define n where "n = (of_char c :: nat)"
  have e: "c = d" if "n = of_char d" for d
    using that inj_of_char [where ?'a = nat] by (simp add: n_def inj_eq)
  from a have "48 \<le> n \<and> n \<le> 57" by (simp add: n_def)
  then have "n = 48 \<or> n = 49 \<or> n = 50 \<or> n = 51 \<or> n = 52 \<or> n = 53 \<or> n = 54 \<or> n = 55
      \<or> n = 56 \<or> n = 57" by arith
  then show "is_digit c"
  proof (elim disjE)
    assume "n = 48"
    with e [of "CHR ''0''"] have "c = CHR ''0''" by simp
    then show ?thesis by (simp add: is_digit_def)
  next
    assume "n = 49"
    with e [of "CHR ''1''"] have "c = CHR ''1''" by simp
    then show ?thesis by (simp add: is_digit_def)
  next
    assume "n = 50"
    with e [of "CHR ''2''"] have "c = CHR ''2''" by simp
    then show ?thesis by (simp add: is_digit_def)
  next
    assume "n = 51"
    with e [of "CHR ''3''"] have "c = CHR ''3''" by simp
    then show ?thesis by (simp add: is_digit_def)
  next
    assume "n = 52"
    with e [of "CHR ''4''"] have "c = CHR ''4''" by simp
    then show ?thesis by (simp add: is_digit_def)
  next
    assume "n = 53"
    with e [of "CHR ''5''"] have "c = CHR ''5''" by simp
    then show ?thesis by (simp add: is_digit_def)
  next
    assume "n = 54"
    with e [of "CHR ''6''"] have "c = CHR ''6''" by simp
    then show ?thesis by (simp add: is_digit_def)
  next
    assume "n = 55"
    with e [of "CHR ''7''"] have "c = CHR ''7''" by simp
    then show ?thesis by (simp add: is_digit_def)
  next
    assume "n = 56"
    with e [of "CHR ''8''"] have "c = CHR ''8''" by simp
    then show ?thesis by (simp add: is_digit_def)
  next
    assume "n = 57"
    with e [of "CHR ''9''"] have "c = CHR ''9''" by simp
    then show ?thesis by (simp add: is_digit_def)
  qed
qed

lemma digit_test: "\<not> ((of_char c :: nat) < of_char (CHR ''0'') \<or> (of_char c :: nat) > of_char (CHR ''9'')) \<longleftrightarrow> is_digit c"
  by (auto simp: is_digit_iff)

lemma number_loop_nondigit:
  "i \<le> j \<Longrightarrow> j < s \<Longrightarrow> \<not> is_digit (m_string it ! (m_position it + j)) \<Longrightarrow>
     \<not> fst (number_loop it s i v)"
proof (induction it s i v rule: number_loop.induct)
  case (1 it s i v)
  let ?c = "m_string it ! (m_position it + i)"
  have lt: "i < s" using "1.prems" by simp
  show ?case
  proof (cases "is_digit ?c")
    case False
    then show ?thesis
      using lt digit_test [of ?c] by (simp add: number_loop.simps [of it s i v] Let_def)
  next
    case True
    then have ne: "i \<noteq> j" using "1.prems" by auto
    let ?v' = "v * 10 + (int (of_char ?c) - int (of_char (CHR ''0'')))"
    show ?thesis
    proof (cases "?v' > 0xffff")
      case True
      then show ?thesis
        using lt by (simp add: number_loop.simps [of it s i v] Let_def)
    next
      case False
      have "\<not> fst (number_loop it s (i + 1) ?v')"
        using "1.IH" [OF lt refl _ refl False] True digit_test [of ?c] ne "1.prems" by simp
      then show ?thesis
        using lt True False digit_test [of ?c]
        by (simp add: number_loop.simps [of it s i v] Let_def)
    qed
  qed
qed

lemma foldl_digits_mono:
  "0 \<le> v \<Longrightarrow> list_all is_digit cs \<Longrightarrow> v \<le> foldl (\<lambda>a c. a * 10 + digit_value c) v cs"
proof (induction cs arbitrary: v)
  case Nil
  show ?case by simp
next
  case (Cons c cs)
  then have d: "0 \<le> digit_value c" by (simp add: digit_value_def is_digit_iff)
  then have "0 \<le> v * 10 + digit_value c" using Cons.prems by simp
  from Cons.IH [OF this] Cons.prems d show ?case by simp
qed

lemma number_loop_digits:
  assumes "i \<le> s" and "0 \<le> v"
    and "list_all is_digit (map (\<lambda>j. m_string it ! (m_position it + j)) [i..<s])"
    and "v \<le> 0xffff"
  shows "(let d = foldl (\<lambda>a c. a * 10 + digit_value c) v
                (map (\<lambda>j. m_string it ! (m_position it + j)) [i..<s])
      in (d \<le> 0xffff \<longrightarrow> number_loop it s i v = (True, d))
       \<and> (\<not> d \<le> 0xffff \<longrightarrow> \<not> fst (number_loop it s i v)))"
  using assms
proof (induction it s i v rule: number_loop.induct)
  case (1 it s i v)
  show ?case
  proof (cases "i < s")
    case False
    then have "i = s" using "1.prems" by simp
    then show ?thesis using "1.prems"(4) by (simp add: number_loop.simps [of it s s v])
  next
    case True
    let ?c = "m_string it ! (m_position it + i)"
    let ?v' = "v * 10 + (int (of_char ?c) - int (of_char (CHR ''0'')))"
    let ?rest = "map (\<lambda>j. m_string it ! (m_position it + j)) [i + 1..<s]"
    have up: "[i..<s] = i # [i + 1..<s]" using True by (simp add: upt_conv_Cons)
    have dg: "is_digit ?c" and dr: "list_all is_digit ?rest"
      using "1.prems"(3) by (simp_all add: up)
    have v': "?v' = v * 10 + digit_value ?c" by (simp add: digit_value_def)
    have nn: "0 \<le> ?v'" using dg "1.prems"(2) by (simp add: is_digit_iff)
    have fo: "foldl (\<lambda>a c. a * 10 + digit_value c) v
                (map (\<lambda>j. m_string it ! (m_position it + j)) [i..<s])
            = foldl (\<lambda>a c. a * 10 + digit_value c) ?v' ?rest"
      by (simp add: up digit_value_def)
    show ?thesis
    proof (cases "?v' > 0xffff")
      case big: True
      have "?v' \<le> foldl (\<lambda>a c. a * 10 + digit_value c) ?v' ?rest"
        using nn dr by (rule foldl_digits_mono)
      then have "\<not> foldl (\<lambda>a c. a * 10 + digit_value c) ?v' ?rest \<le> 0xffff"
        using big by simp
      moreover have "number_loop it s i v = (False, ?v')"
        using True dg big digit_test [of ?c]
        by (simp add: number_loop.simps [of it s i v] Let_def)
      ultimately show ?thesis
        by (simp add: fo Let_def)
    next
      case small: False
      have st: "number_loop it s i v = number_loop it s (i + 1) ?v'"
        using True dg small digit_test [of ?c]
        by (simp add: number_loop.simps [of it s i v] Let_def)
      have "i + 1 \<le> s" using True by simp
      have "?v' \<le> 0xffff" using small by simp
      from "1.IH" [OF True refl _ refl small \<open>i + 1 \<le> s\<close> nn dr this] dg digit_test [of ?c]
      show ?thesis
        by (simp add: st fo Let_def)
    qed
  qed
qed

lemma take_drop_nth:
  "p + n \<le> length xs \<Longrightarrow> take n (drop p xs) = map (\<lambda>j. xs ! (p + j)) [0..<n]"
  by (rule nth_equalityI) simp_all

lemma token_chars:
  assumes "iterator_ok it"
  shows "token it = map (\<lambda>j. m_string it ! (m_position it + j)) [0..<tok_size it]"
    and "length (token it) = tok_size it"
proof -
  have "m_position it + tok_size it \<le> length (m_string it)"
    using assms by (auto simp: iterator_ok_def tok_size_def)
  then show "token it = map (\<lambda>j. m_string it ! (m_position it + j)) [0..<tok_size it]"
    unfolding token_def by (rule take_drop_nth)
  then show "length (token it) = tok_size it"
    by simp
qed

lemmas tok_ev = tokeniser_cbegin_def str_find_def token_def tok_size_def npos_def
  iterator_ok_def increment_def Let_def upt_rec [of _ "numeral n" for n] upt_rec [of _ "Suc n" for n]

lemma str_find_range:
  "str_find s c pos = npos \<or> (pos \<le> str_find s c pos \<and> str_find s c pos < length s)"
proof (cases "filter (\<lambda>i. s ! i = c) [pos..<length s]")
  case Nil
  then show ?thesis by (simp add: str_find_def)
next
  case (Cons i rest)
  then have "i \<in> set (filter (\<lambda>i. s ! i = c) [pos..<length s])" by simp
  then have "pos \<le> i \<and> i < length s" by simp
  with Cons show ?thesis by (simp add: str_find_def)
qed

lemma iterator_ok_cbegin: "length s < npos \<Longrightarrow> iterator_ok (tokeniser_cbegin s sep)"
  using str_find_range [of s sep 0] by (auto simp: iterator_ok_def tokeniser_cbegin_def)

lemma iterator_ok_increment:
  assumes "iterator_ok it" and "m_next_separator it \<noteq> npos"
  shows "iterator_ok (increment it)"
  using assms str_find_range [of "m_string it" "m_separator it" "m_next_separator it + 1"]
  by (auto simp: iterator_ok_def increment_def Let_def)

text \<open>
  C8. For every iterator that stands on a token: on the empty token \<open>number\<close> returns
  true with the value \<open>-1\<close>; on a token with a character that is not a digit it returns
  false; on a token of digits whose decimal value is at most \<open>0xFFFF\<close> it returns true
  with that value; and on a token of digits whose value exceeds \<open>0xFFFF\<close> it returns
  false. The iterators made by \<open>cbegin\<close> and \<open>operator++\<close> stand on a token
  (lemmas \<open>iterator_ok_cbegin\<close> and \<open>iterator_ok_increment\<close>).
\<close>

theorem number_of_token:
  assumes "iterator_ok it"
  shows "(token it = [] \<longrightarrow> number it = (True, - 1))
       \<and> (\<not> list_all is_digit (token it) \<longrightarrow> \<not> fst (number it))
       \<and> (token it \<noteq> [] \<and> list_all is_digit (token it) \<and> decimal_value (token it) \<le> 0xffff
            \<longrightarrow> number it = (True, decimal_value (token it)))
       \<and> (list_all is_digit (token it) \<and> decimal_value (token it) > 0xffff
            \<longrightarrow> \<not> fst (number it))"
proof (intro conjI impI)
  note tc = token_chars [OF assms]
  let ?s = "tok_size it"
  show "number it = (True, - 1)" if "token it = []"
    using that tc(2) by (simp add: number_def)
  show "\<not> fst (number it)" if "\<not> list_all is_digit (token it)"
  proof -
    from that obtain j where j: "j < ?s" "\<not> is_digit (m_string it ! (m_position it + j))"
      unfolding tc(1) by (auto simp: list_all_iff)
    then have "\<not> fst (number_loop it ?s 0 0)"
      using number_loop_nondigit [of 0 j ?s it 0] by simp
    then show ?thesis
      using j(1) by (simp add: number_def Let_def)
  qed
  have dg: "list_all is_digit (map (\<lambda>j. m_string it ! (m_position it + j)) [0..<?s])"
    if "list_all is_digit (token it)"
    using that tc(1) by simp
  have dv: "decimal_value (token it) = foldl (\<lambda>a c. a * 10 + digit_value c) 0
      (map (\<lambda>j. m_string it ! (m_position it + j)) [0..<?s])"
    using tc(1) by (simp add: decimal_value_def)
  show "number it = (True, decimal_value (token it))"
    if "token it \<noteq> [] \<and> list_all is_digit (token it) \<and> decimal_value (token it) \<le> 0xffff"
  proof -
    have ne: "?s \<noteq> 0"
    proof
      assume "?s = 0"
      then have "token it = []" using tc(2) by simp
      then show False using that by simp
    qed
    from number_loop_digits [of 0 ?s 0 it] dg that
    have "number_loop it ?s 0 0 = (True, decimal_value (token it))"
      by (simp add: Let_def dv)
    then show ?thesis using ne by (simp add: number_def Let_def)
  qed
  show "\<not> fst (number it)"
    if "list_all is_digit (token it) \<and> decimal_value (token it) > 0xffff"
  proof -
    have "?s \<noteq> 0"
    proof
      assume "?s = 0"
      then have "token it = []" using tc(2) by simp
      then show False using that by (simp add: decimal_value_def)
    qed
    moreover from number_loop_digits [of 0 ?s 0 it] dg that
    have "\<not> fst (number_loop it ?s 0 0)"
      by (simp add: Let_def dv)
    ultimately show ?thesis by (simp add: number_def Let_def)
  qed
qed

theorem number_of_token_witness:
  "iterator_ok (tokeniser_cbegin [] CHR '';'')
   \<and> token (tokeniser_cbegin [] CHR '';'') = []
   \<and> number (tokeniser_cbegin [] CHR '';'') = (True, - 1)
   \<and> iterator_ok (tokeniser_cbegin ''12a'' CHR '';'')
   \<and> \<not> list_all is_digit (token (tokeniser_cbegin ''12a'' CHR '';''))
   \<and> \<not> fst (number (tokeniser_cbegin ''12a'' CHR '';''))
   \<and> iterator_ok (tokeniser_cbegin ''65535;7'' CHR '';'')
   \<and> token (tokeniser_cbegin ''65535;7'' CHR '';'') \<noteq> []
   \<and> list_all is_digit (token (tokeniser_cbegin ''65535;7'' CHR '';''))
   \<and> decimal_value (token (tokeniser_cbegin ''65535;7'' CHR '';'')) \<le> 0xffff
   \<and> number (tokeniser_cbegin ''65535;7'' CHR '';'') = (True, 65535)
   \<and> iterator_ok (increment (tokeniser_cbegin ''65535;7'' CHR '';''))
   \<and> number (increment (tokeniser_cbegin ''65535;7'' CHR '';'')) = (True, 7)
   \<and> iterator_ok (tokeniser_cbegin ''65536'' CHR '';'')
   \<and> list_all is_digit (token (tokeniser_cbegin ''65536'' CHR '';''))
   \<and> decimal_value (token (tokeniser_cbegin ''65536'' CHR '';'')) > 0xffff
   \<and> \<not> fst (number (tokeniser_cbegin ''65536'' CHR '';''))"
proof -
  let ?a = "tokeniser_cbegin [] CHR '';''"
  let ?b = "tokeniser_cbegin ''12a'' CHR '';''"
  let ?c = "tokeniser_cbegin ''65535;7'' CHR '';''"
  let ?d = "tokeniser_cbegin ''65536'' CHR '';''"
  have ok: "iterator_ok ?a" "iterator_ok ?b" "iterator_ok ?c" "iterator_ok (increment ?c)"
    "iterator_ok ?d"
    by (simp_all add: tok_ev)
  have tk: "token ?a = []" "token ?b = ''12a''" "token ?c = ''65535''"
    "token (increment ?c) = ''7''" "token ?d = ''65536''"
    by (simp_all add: tok_ev)
  have dv: "decimal_value ''65535'' = 65535" "decimal_value ''7'' = 7"
    "decimal_value ''65536'' = 65536"
    by (simp_all add: decimal_value_def digit_value_def)
  have dg: "\<not> list_all is_digit ''12a''" "list_all is_digit ''65535''" "list_all is_digit ''7''"
    "list_all is_digit ''65536''"
    by (simp_all add: is_digit_def)
  show ?thesis
    using number_of_token [OF ok(1)] number_of_token [OF ok(2)] number_of_token [OF ok(3)]
      number_of_token [OF ok(4)] number_of_token [OF ok(5)] ok
    by (simp add: tk dv is_digit_def)
qed

subsection \<open>C3: DECSTBM\<close>

lemma collect_two:
  "snd (collect seq 0 2 d) = [param seq 0 d, param seq (seq_next seq 0) d]"
  by (simp add: collect_def numeral_2_eq_2 Let_def case_prod_beta)

lemma extend_ring_frame:
  "\<exists>r. extend_ring t = t\<lparr>m_screen := (m_screen t)\<lparr>row_data := r\<rparr>\<rparr>"
proof (induction t rule: extend_ring.induct)
  case (1 t)
  show ?case
  proof (cases "vte_ring_next (row_data (m_screen t)) < insert_delta (m_screen t) + m_row_count t")
    case False
    then have "extend_ring t = t\<lparr>m_screen := (m_screen t)\<lparr>row_data := row_data (m_screen t)\<rparr>\<rparr>"
      by (simp add: extend_ring.simps [of t])
    then show ?thesis by blast
  next
    case True
    from "1.IH" [OF True] obtain r where
      "extend_ring (t\<lparr>m_screen := (m_screen t)\<lparr>row_data :=
                  vte_ring_insert (row_data (m_screen t))
                    (vte_ring_next (row_data (m_screen t)))\<rparr>\<rparr>)
       = t\<lparr>m_screen := (m_screen t)\<lparr>row_data := r\<rparr>\<rparr>"
      by auto
    then have "extend_ring t = t\<lparr>m_screen := (m_screen t)\<lparr>row_data := r\<rparr>\<rparr>"
      using True by (simp add: extend_ring.simps [of t])
    then show ?thesis by blast
  qed
qed

lemma home_cursor_fields:
  "m_scrolling_restricted (home_cursor t) = m_scrolling_restricted t"
  "m_scrolling_region_start (home_cursor t) = m_scrolling_region_start t"
  "m_scrolling_region_end (home_cursor t) = m_scrolling_region_end t"
  "cursor_col (m_screen (home_cursor t)) = CLAMP 0 0 (m_column_count t - 1)"
  "cursor_row (m_screen (home_cursor t)) =
     (if m_origin_mode t \<and> m_scrolling_restricted t
      then CLAMP (m_scrolling_region_start t) (m_scrolling_region_start t) (m_scrolling_region_end t)
      else CLAMP 0 0 (m_row_count t - 1)) + insert_delta (m_screen t)"
  by (simp_all add: home_cursor_def set_cursor_coords_def set_cursor_row_def
      set_cursor_column_def Let_def)


lemma home_cursor_idem:
  assumes "cursor_col (m_screen t) = CLAMP 0 0 (m_column_count t - 1)"
    and "cursor_row (m_screen t) =
     (if m_origin_mode t \<and> m_scrolling_restricted t
      then CLAMP (m_scrolling_region_start t) (m_scrolling_region_start t) (m_scrolling_region_end t)
      else CLAMP 0 0 (m_row_count t - 1)) + insert_delta (m_screen t)"
  shows "home_cursor t = t"
proof -
  have "home_cursor t = t\<lparr>m_screen := (m_screen t)\<lparr>cursor_col := cursor_col (m_screen t),
          cursor_row := cursor_row (m_screen t)\<rparr>\<rparr>"
    unfolding assms
    by (simp add: home_cursor_def set_cursor_coords_def set_cursor_row_def
      set_cursor_column_def Let_def)
  then show ?thesis by simp
qed

lemma home_cursor_twice: "home_cursor (home_cursor t) = home_cursor t"
  by (rule home_cursor_idem)
     (auto simp add: home_cursor_def set_cursor_coords_def set_cursor_row_def
      set_cursor_column_def Let_def)

lemma DECSTBM_cases:
  fixes seq t
  defines "R \<equiv> m_row_count t"
    and "tp \<equiv> (if param seq 0 (- 1) = - 1 then 1 else param seq 0 (- 1))"
    and "bt \<equiv> (if param seq (seq_next seq 0) (- 1) = - 1 then m_row_count t
                    else param seq (seq_next seq 0) (- 1))"
  shows "tp < 1 \<or> tp > R \<or> bt < tp + 1 \<Longrightarrow>
           DECSTBM seq t = home_cursor (t\<lparr>m_scrolling_restricted := False\<rparr>)"
    and "\<not> (tp < 1 \<or> tp > R \<or> bt < tp + 1) \<Longrightarrow> tp = 1 \<and> bt \<ge> R \<Longrightarrow>
           DECSTBM seq t = home_cursor (t\<lparr>m_scrolling_region_start := 0,
                           m_scrolling_region_end := R - 1,
                           m_scrolling_restricted := False\<rparr>)"
    and "\<not> (tp < 1 \<or> tp > R \<or> bt < tp + 1) \<Longrightarrow> \<not> (tp = 1 \<and> bt \<ge> R) \<Longrightarrow>
           DECSTBM seq t = home_cursor (extend_ring (t\<lparr>m_scrolling_region_start := tp - 1,
                           m_scrolling_region_end := min bt R - 1,
                           m_scrolling_restricted := True\<rparr>))"
  unfolding R_def tp_def bt_def
  by (auto simp add: DECSTBM_def collect_two Let_def min_def)


text \<open>
  C3. On a terminal with \<open>R \<ge> 1\<close> rows (and at least one column), with \<open>tp\<close> and \<open>bt\<close>
  the first parameters of the first two blocks after defaulting (missing top \<open>\<rightarrow>\<close> 1,
  missing bottom \<open>\<rightarrow>\<close> \<open>R\<close>): if \<open>tp < 1\<close> or \<open>tp > R\<close> or \<open>bt < tp + 1\<close> the restriction flag
  is cleared; otherwise, if \<open>tp = 1\<close> and \<open>bt \<ge> R\<close> it is cleared as well; otherwise the
  region becomes \<open>[tp - 1, min bt R - 1]\<close> with the flag set. In every case the cursor
  ends at the home position: column 0 of the first row of the screen, or of the
  scrolling region when origin mode and the restriction are both on (homing the
  cursor again changes nothing).
\<close>

theorem DECSTBM_region_and_home:
  assumes "1 \<le> m_row_count t" and "1 \<le> m_column_count t"
  shows "let R = m_row_count t;
             tp = (if param seq 0 (- 1) = - 1 then 1 else param seq 0 (- 1));
             bt = (if param seq (seq_next seq 0) (- 1) = - 1 then R
                   else param seq (seq_next seq 0) (- 1));
             t' = DECSTBM seq t
         in (tp < 1 \<or> tp > R \<or> bt < tp + 1 \<longrightarrow> \<not> m_scrolling_restricted t')
          \<and> (\<not> (tp < 1 \<or> tp > R \<or> bt < tp + 1) \<and> tp = 1 \<and> bt \<ge> R
                \<longrightarrow> \<not> m_scrolling_restricted t')
          \<and> (\<not> (tp < 1 \<or> tp > R \<or> bt < tp + 1) \<and> \<not> (tp = 1 \<and> bt \<ge> R)
                \<longrightarrow> m_scrolling_restricted t'
                  \<and> m_scrolling_region_start t' = tp - 1
                  \<and> m_scrolling_region_end t' = min bt R - 1)
          \<and> cursor_col (m_screen t') = 0
          \<and> cursor_row (m_screen t') = insert_delta (m_screen t)
               + (if m_origin_mode t \<and> m_scrolling_restricted t'
                  then m_scrolling_region_start t' else 0)
          \<and> home_cursor t' = t'"
proof -
  define R where "R = m_row_count t"
  define tp where "tp = (if param seq 0 (- 1) = - 1 then 1 else param seq 0 (- 1))"
  define bt where "bt = (if param seq (seq_next seq 0) (- 1) = - 1 then m_row_count t
                    else param seq (seq_next seq 0) (- 1))"
  define t' where "t' = DECSTBM seq t"
  note cs = DECSTBM_cases [of seq t, folded R_def tp_def bt_def t'_def]
  have R1: "1 \<le> R" using assms(1) by (simp add: R_def)
  consider (bail) "tp < 1 \<or> tp > R \<or> bt < tp + 1"
    | (full) "\<not> (tp < 1 \<or> tp > R \<or> bt < tp + 1)" "tp = 1 \<and> bt \<ge> R"
    | (region) "\<not> (tp < 1 \<or> tp > R \<or> bt < tp + 1)" "\<not> (tp = 1 \<and> bt \<ge> R)"
    by blast
  then have "(tp < 1 \<or> tp > R \<or> bt < tp + 1 \<longrightarrow> \<not> m_scrolling_restricted t')
          \<and> (\<not> (tp < 1 \<or> tp > R \<or> bt < tp + 1) \<and> tp = 1 \<and> bt \<ge> R
                \<longrightarrow> \<not> m_scrolling_restricted t')
          \<and> (\<not> (tp < 1 \<or> tp > R \<or> bt < tp + 1) \<and> \<not> (tp = 1 \<and> bt \<ge> R)
                \<longrightarrow> m_scrolling_restricted t'
                  \<and> m_scrolling_region_start t' = tp - 1
                  \<and> m_scrolling_region_end t' = min bt R - 1)
          \<and> cursor_col (m_screen t') = 0
          \<and> cursor_row (m_screen t') = insert_delta (m_screen t)
               + (if m_origin_mode t \<and> m_scrolling_restricted t'
                  then m_scrolling_region_start t' else 0)
          \<and> home_cursor t' = t'"
  proof cases
    case bail
    have e: "t' = home_cursor (t\<lparr>m_scrolling_restricted := False\<rparr>)"
      using cs(1) [OF bail] .
    have h: "home_cursor t' = t'"
      unfolding e by (rule home_cursor_twice)
    show ?thesis
      using bail assms h by (simp add: e home_cursor_fields CLAMP_def)
  next
    case full
    have e: "t' = home_cursor (t\<lparr>m_scrolling_region_start := 0,
                           m_scrolling_region_end := R - 1,
                           m_scrolling_restricted := False\<rparr>)"
      using cs(2) [OF full] .
    have h: "home_cursor t' = t'"
      unfolding e by (rule home_cursor_twice)
    show ?thesis
      using full assms h by (simp add: e home_cursor_fields CLAMP_def)
  next
    case region
    obtain r where x: "extend_ring (t\<lparr>m_scrolling_region_start := tp - 1,
                           m_scrolling_region_end := min bt R - 1,
                           m_scrolling_restricted := True\<rparr>)
        = (t\<lparr>m_scrolling_region_start := tp - 1,
                           m_scrolling_region_end := min bt R - 1,
                           m_scrolling_restricted := True\<rparr>)\<lparr>m_screen := (m_screen t)\<lparr>row_data := r\<rparr>\<rparr>"
      using extend_ring_frame [of "t\<lparr>m_scrolling_region_start := tp - 1,
                           m_scrolling_region_end := min bt R - 1,
                           m_scrolling_restricted := True\<rparr>"] by auto
    have e: "t' = home_cursor ((t\<lparr>m_scrolling_region_start := tp - 1,
                           m_scrolling_region_end := min bt R - 1,
                           m_scrolling_restricted := True\<rparr>)\<lparr>m_screen := (m_screen t)\<lparr>row_data := r\<rparr>\<rparr>)"
      using cs(3) [OF region] x by simp
    have h: "home_cursor t' = t'"
      unfolding e by (rule home_cursor_twice)
    have le: "tp - 1 \<le> min bt R - 1"
      using region(1) by auto
    show ?thesis
      using region assms h le by (auto simp add: e home_cursor_fields CLAMP_def)
  qed
  then show ?thesis
    unfolding Let_def R_def tp_def bt_def t'_def .
qed


theorem DECSTBM_region_and_home_witness:
  "1 \<le> m_row_count terminal_80x24 \<and> 1 \<le> m_column_count terminal_80x24
   \<and> m_scrolling_restricted (DECSTBM (mk_seq [P 5, P 10]) terminal_80x24)
   \<and> m_scrolling_region_start (DECSTBM (mk_seq [P 5, P 10]) terminal_80x24) = 4
   \<and> m_scrolling_region_end (DECSTBM (mk_seq [P 5, P 10]) terminal_80x24) = 9
   \<and> cursor_col (m_screen (DECSTBM (mk_seq [P 5, P 10]) terminal_80x24)) = 0
   \<and> cursor_row (m_screen (DECSTBM (mk_seq [P 5, P 10]) terminal_80x24)) = 0
   \<and> cursor_row (m_screen (DECSTBM (mk_seq [P 5, P 10])
         (terminal_80x24\<lparr>m_origin_mode := True\<rparr>))) = 4
   \<and> \<not> m_scrolling_restricted (DECSTBM (mk_seq [P 10, P 5]) terminal_80x24)
   \<and> \<not> m_scrolling_restricted (DECSTBM (mk_seq [PD, P 30]) terminal_80x24)
   \<and> \<not> m_scrolling_restricted (DECSTBM (mk_seq [P 0, P 10]) terminal_80x24)"
proof -
  let ?T = "terminal_80x24"
  let ?O = "terminal_80x24\<lparr>m_origin_mode := True\<rparr>"
  have rc: "1 \<le> m_row_count ?T" "1 \<le> m_column_count ?T"
    "1 \<le> m_row_count ?O" "1 \<le> m_column_count ?O"
    by (simp_all add: terminal_80x24_def)
  have f: "m_row_count ?T = 24" "m_row_count ?O = 24" "insert_delta (m_screen ?T) = 0"
    "insert_delta (m_screen ?O) = 0" "\<not> m_origin_mode ?T" "m_origin_mode ?O"
    by (simp_all add: terminal_80x24_def)
  have p: "param (mk_seq [P 5, P 10]) 0 (- 1) = 5"
    "param (mk_seq [P 5, P 10]) (seq_next (mk_seq [P 5, P 10]) 0) (- 1) = 10"
    "param (mk_seq [P 10, P 5]) 0 (- 1) = 10"
    "param (mk_seq [P 10, P 5]) (seq_next (mk_seq [P 10, P 5]) 0) (- 1) = 5"
    "param (mk_seq [PD, P 30]) 0 (- 1) = - 1"
    "param (mk_seq [PD, P 30]) (seq_next (mk_seq [PD, P 30]) 0) (- 1) = 30"
    "param (mk_seq [P 0, P 10]) 0 (- 1) = 0"
    "param (mk_seq [P 0, P 10]) (seq_next (mk_seq [P 0, P 10]) 0) (- 1) = 10"
    by (simp_all add: seq_ev)
  show ?thesis
    using DECSTBM_region_and_home [OF rc(1,2), of "mk_seq [P 5, P 10]"]
      DECSTBM_region_and_home [OF rc(3,4), of "mk_seq [P 5, P 10]"]
      DECSTBM_region_and_home [OF rc(1,2), of "mk_seq [P 10, P 5]"]
      DECSTBM_region_and_home [OF rc(1,2), of "mk_seq [PD, P 30]"]
      DECSTBM_region_and_home [OF rc(1,2), of "mk_seq [P 0, P 10]"]
      rc(1,2)
    by (simp add: Let_def p f)
qed

subsection \<open>C7: CUP\<close>

lemma collect1_clamped_range:
  "lo \<le> hi \<Longrightarrow> lo \<le> collect1_clamped seq idx d lo hi \<and> collect1_clamped seq idx d lo hi \<le> hi"
  by (simp add: collect1_clamped_def Let_def)

lemma CUP_cursor:
  "cursor_col (m_screen (CUP seq t))
     = CLAMP (collect1_clamped seq (seq_next seq 0) 1 1 (m_column_count t) - 1) 0
         (m_column_count t - 1)"
  "cursor_row (m_screen (CUP seq t))
     = (if m_origin_mode t \<and> m_scrolling_restricted t
        then CLAMP (collect1_clamped seq 0 1 1 (m_row_count t) - 1 + m_scrolling_region_start t)
               (m_scrolling_region_start t) (m_scrolling_region_end t)
        else CLAMP (collect1_clamped seq 0 1 1 (m_row_count t) - 1) 0 (m_row_count t - 1))
       + insert_delta (m_screen t)"
  by (simp_all add: CUP_def set_cursor_coords1_def set_cursor_row1_def set_cursor_column1_def
      set_cursor_row_def set_cursor_column_def Let_def)

lemma CUP_defaults:
  "CUP (mk_seq []) t = CUP (mk_seq [P 1, P 1]) t"
  "CUP (mk_seq [PD, PD]) t = CUP (mk_seq [P 1, P 1]) t"
  by (simp_all add: CUP_def collect1_clamped_def seq_ev Let_def)

lemma DECSTBM_5_10_origin:
  "DECSTBM (mk_seq [P 5, P 10]) (terminal_80x24\<lparr>m_origin_mode := True\<rparr>)
     = terminal_80x24\<lparr>m_origin_mode := True, m_scrolling_restricted := True,
         m_scrolling_region_start := 4, m_scrolling_region_end := 9,
         m_screen := (m_screen terminal_80x24)\<lparr>cursor_row := 4\<rparr>\<rparr>"
proof -
  have p: "param (mk_seq [P 5, P 10]) 0 (- 1) = 5"
    "param (mk_seq [P 5, P 10]) (seq_next (mk_seq [P 5, P 10]) 0) (- 1) = 10"
    by (simp_all add: seq_ev)
  show ?thesis
    by (simp add: DECSTBM_def collect_two p Let_def terminal_80x24_def extend_ring.simps
        vte_ring_next_def home_cursor_def set_cursor_coords_def set_cursor_row_def
        set_cursor_column_def CLAMP_def)
qed

text \<open>
  C7, as amended. On a terminal with \<open>R \<ge> 1\<close> rows and \<open>C \<ge> 1\<close> columns: CUP without
  parameters, and with default-valued parameters, does what CUP \<open>1;1\<close> does; the row
  parameter is clamped into \<open>[1, R]\<close> and the column parameter into \<open>[1, C]\<close> before the
  move; the cursor column becomes the column parameter (0-based); when origin mode
  and the scrolling restriction are not both on, the cursor row becomes the row
  parameter, so that CUP \<open>9999;9999\<close> on an 80 by 24 grid ends at row 24, column 80; when
  both are on, the row is counted from the top of the scrolling region and clamped
  into the region. The cursor then lies inside the grid (given, in the second case, a
  region inside the grid).
\<close>

theorem CUP_clamps_and_defaults:
  assumes "1 \<le> m_row_count t" and "1 \<le> m_column_count t"
  shows "let R = m_row_count t; C = m_column_count t;
             rowvalue = collect1_clamped seq 0 1 1 R;
             colvalue = collect1_clamped seq (seq_next seq 0) 1 1 C;
             t' = CUP seq t
         in CUP (mk_seq []) t = CUP (mk_seq [P 1, P 1]) t
          \<and> CUP (mk_seq [PD, PD]) t = CUP (mk_seq [P 1, P 1]) t
          \<and> 1 \<le> rowvalue \<and> rowvalue \<le> R \<and> 1 \<le> colvalue \<and> colvalue \<le> C
          \<and> cursor_col (m_screen t') = colvalue - 1
          \<and> (\<not> (m_origin_mode t \<and> m_scrolling_restricted t) \<longrightarrow>
                cursor_row (m_screen t') = insert_delta (m_screen t) + (rowvalue - 1))
          \<and> (m_origin_mode t \<and> m_scrolling_restricted t \<longrightarrow>
                cursor_row (m_screen t') = insert_delta (m_screen t)
                  + CLAMP (rowvalue - 1 + m_scrolling_region_start t)
                      (m_scrolling_region_start t) (m_scrolling_region_end t))
          \<and> (\<not> (m_origin_mode t \<and> m_scrolling_restricted t)
               \<or> (0 \<le> m_scrolling_region_start t
                   \<and> m_scrolling_region_start t \<le> m_scrolling_region_end t
                   \<and> m_scrolling_region_end t \<le> R - 1) \<longrightarrow>
                0 \<le> cursor_row (m_screen t') - insert_delta (m_screen t)
              \<and> cursor_row (m_screen t') - insert_delta (m_screen t) \<le> R - 1
              \<and> 0 \<le> cursor_col (m_screen t') \<and> cursor_col (m_screen t') \<le> C - 1)"
proof -
  note r = collect1_clamped_range [OF assms(1), of seq 0 1]
  note c = collect1_clamped_range [OF assms(2), of seq "seq_next seq 0" 1]
  show ?thesis
    using r c unfolding Let_def
    by (auto simp add: CUP_defaults CUP_cursor CLAMP_def)
qed


theorem CUP_clamps_and_defaults_witness:
  "1 \<le> m_row_count terminal_80x24 \<and> 1 \<le> m_column_count terminal_80x24
   \<and> \<not> (m_origin_mode terminal_80x24 \<and> m_scrolling_restricted terminal_80x24)
   \<and> CUP (mk_seq []) terminal_80x24 = CUP (mk_seq [P 1, P 1]) terminal_80x24
   \<and> cursor_row (m_screen (CUP (mk_seq [P 9999, P 9999]) terminal_80x24)) = 23
   \<and> cursor_col (m_screen (CUP (mk_seq [P 9999, P 9999]) terminal_80x24)) = 79
   \<and> cursor_row (m_screen (CUP (mk_seq [P 0, P 0]) terminal_80x24)) = 0
   \<and> cursor_col (m_screen (CUP (mk_seq [P 0, P 0]) terminal_80x24)) = 0
   \<and> m_origin_mode (DECSTBM (mk_seq [P 5, P 10]) (terminal_80x24\<lparr>m_origin_mode := True\<rparr>))
   \<and> m_scrolling_restricted (DECSTBM (mk_seq [P 5, P 10]) (terminal_80x24\<lparr>m_origin_mode := True\<rparr>))
   \<and> cursor_row (m_screen (CUP (mk_seq [P 2, P 3])
         (DECSTBM (mk_seq [P 5, P 10]) (terminal_80x24\<lparr>m_origin_mode := True\<rparr>)))) = 5
   \<and> cursor_col (m_screen (CUP (mk_seq [P 2, P 3])
         (DECSTBM (mk_seq [P 5, P 10]) (terminal_80x24\<lparr>m_origin_mode := True\<rparr>)))) = 2"
proof -
  let ?T = "terminal_80x24"
  let ?O = "DECSTBM (mk_seq [P 5, P 10]) (terminal_80x24\<lparr>m_origin_mode := True\<rparr>)"
  have rc: "1 \<le> m_row_count ?T" "1 \<le> m_column_count ?T"
    "1 \<le> m_row_count ?O" "1 \<le> m_column_count ?O"
    by (simp_all add: DECSTBM_5_10_origin) (simp_all add: terminal_80x24_def)
  have f: "m_row_count ?T = 24" "m_column_count ?T = 80" "insert_delta (m_screen ?T) = 0"
    "\<not> m_origin_mode ?T" "\<not> m_scrolling_restricted ?T"
    by (simp_all add: terminal_80x24_def)
  have g: "m_row_count ?O = 24" "m_column_count ?O = 80" "insert_delta (m_screen ?O) = 0"
    "m_origin_mode ?O" "m_scrolling_restricted ?O"
    "m_scrolling_region_start ?O = 4" "m_scrolling_region_end ?O = 9"
    by (simp_all add: DECSTBM_5_10_origin) (simp_all add: terminal_80x24_def)
  have v: "collect1_clamped (mk_seq [P 9999, P 9999]) 0 1 1 24 = 24"
    "collect1_clamped (mk_seq [P 9999, P 9999]) (seq_next (mk_seq [P 9999, P 9999]) 0) 1 1 80 = 80"
    "collect1_clamped (mk_seq [P 0, P 0]) 0 1 1 24 = 1"
    "collect1_clamped (mk_seq [P 0, P 0]) (seq_next (mk_seq [P 0, P 0]) 0) 1 1 80 = 1"
    "collect1_clamped (mk_seq [P 2, P 3]) 0 1 1 24 = 2"
    "collect1_clamped (mk_seq [P 2, P 3]) (seq_next (mk_seq [P 2, P 3]) 0) 1 1 80 = 3"
    by (simp_all add: collect1_clamped_def seq_ev)
  show ?thesis
    using CUP_clamps_and_defaults [OF rc(1,2), of "mk_seq [P 9999, P 9999]"]
      CUP_clamps_and_defaults [OF rc(1,2), of "mk_seq [P 0, P 0]"]
      CUP_clamps_and_defaults [OF rc(3,4), of "mk_seq [P 2, P 3]"]
      rc(1,2)
    by (simp add: Let_def f g v CLAMP_def)
qed

text \<open>
  C7 as stated fails in origin mode: after \<open>CSI ? 6 h\<close> and \<open>CSI 5 ; 10 r\<close> on an 80 by 24
  grid, \<open>CSI 9999 ; 9999 H\<close> leaves the cursor on the last row of the scrolling region
  (row 10), not on row 24.
\<close>

theorem CUP_origin_mode_lands_in_region:
  "m_row_count (DECSTBM (mk_seq [P 5, P 10]) (terminal_80x24\<lparr>m_origin_mode := True\<rparr>)) = 24
   \<and> m_column_count (DECSTBM (mk_seq [P 5, P 10]) (terminal_80x24\<lparr>m_origin_mode := True\<rparr>)) = 80
   \<and> cursor_row (m_screen (CUP (mk_seq [P 9999, P 9999])
         (DECSTBM (mk_seq [P 5, P 10]) (terminal_80x24\<lparr>m_origin_mode := True\<rparr>)))) = 9
   \<and> cursor_row (m_screen (CUP (mk_seq [P 9999, P 9999])
         (DECSTBM (mk_seq [P 5, P 10]) (terminal_80x24\<lparr>m_origin_mode := True\<rparr>)))) \<noteq> 23
   \<and> cursor_col (m_screen (CUP (mk_seq [P 9999, P 9999])
         (DECSTBM (mk_seq [P 5, P 10]) (terminal_80x24\<lparr>m_origin_mode := True\<rparr>)))) = 79"
proof -
  have v: "collect1_clamped (mk_seq [P 9999, P 9999]) 0 1 1 24 = 24"
    "collect1_clamped (mk_seq [P 9999, P 9999]) (seq_next (mk_seq [P 9999, P 9999]) 0) 1 1 80 = 80"
    by (simp_all add: collect1_clamped_def seq_ev)
  show ?thesis
    by (simp add: DECSTBM_5_10_origin CUP_cursor)
       (simp add: terminal_80x24_def v CLAMP_def)
qed

subsection \<open>C5: the cursor position report of DSR\<close>

lemma dec_nat_small: "n < 10 \<Longrightarrow> dec_nat n = [digit_char n]"
  by (subst dec_nat.simps) simp

lemma dec_nat_big: "\<not> n < 10 \<Longrightarrow> dec_nat n = dec_nat (n div 10) @ [digit_char (n mod 10)]"
  by (subst dec_nat.simps) simp

lemmas dec_ev = dec_nat_small dec_nat_big digit_char_def printf_ld_def

lemma DSR_ECMA_6:
  "collect1 seq 0 (- 1) = 6 \<Longrightarrow>
   DSR_ECMA seq t =
     feed_child (VTE_CAP_CSI
       @ printf_ld (CLAMP (cursor_row (m_screen t) - insert_delta (m_screen t)
                            - (if m_origin_mode t \<and> m_scrolling_restricted t
                               then m_scrolling_region_start t else 0))
                      0 (if m_origin_mode t \<and> m_scrolling_restricted t
                         then m_scrolling_region_end t else m_row_count t - 1) + 1)
       @ '';'' @ printf_ld (CLAMP (cursor_col (m_screen t) + 1) 1 (m_column_count t)) @ ''R'') t"
  by (simp add: DSR_ECMA_def Let_def)

lemma DSR_ECMA_cursor_in_region:
  assumes "collect1 seq 0 (- 1) = 6"
    and "0 \<le> (if m_origin_mode t \<and> m_scrolling_restricted t
               then m_scrolling_region_start t else 0)"
    and "(if m_origin_mode t \<and> m_scrolling_restricted t then m_scrolling_region_start t else 0)
           \<le> cursor_row (m_screen t) - insert_delta (m_screen t)"
    and "cursor_row (m_screen t) - insert_delta (m_screen t)
           \<le> (if m_origin_mode t \<and> m_scrolling_restricted t
               then m_scrolling_region_end t else m_row_count t - 1)"
  shows "DSR_ECMA seq t =
     feed_child (VTE_CAP_CSI @ printf_ld (cpr_row_claimed t) @ '';''
       @ printf_ld (CLAMP (cursor_col (m_screen t) + 1) 1 (m_column_count t)) @ ''R'') t"
  using assms(2-) unfolding DSR_ECMA_6 [OF assms(1)]
  by (auto simp add: cpr_row_claimed_def CLAMP_def)

lemma DSR_ECMA_frame: "DSR_ECMA seq t = t\<lparr>child_out := child_out (DSR_ECMA seq t)\<rparr>"
  by (simp add: DSR_ECMA_def Let_def feed_child_def case_prod_beta)

text \<open>
  C5 at the failing input. With origin mode on, the region at rows 5 to 10 and the
  cursor on row 21, DSR 6 replies \<open>CSI 10 ; 1 R\<close>: the row relative to the region's top
  (17) is clamped to the absolute index of the region's last row, so the reported
  row lies outside the region of six rows. Clamped into the region, as C5 says, it
  is 6. (Lemma \<open>DSR_ECMA_cursor_in_region\<close>: with the cursor inside the active region
  the code replies what C5 says; lemma \<open>DSR_ECMA_frame\<close>: only the reply is added to
  the state.)
\<close>

theorem DSR_ECMA_row_beyond_region:
  "DSR_ECMA (mk_seq [P 6]) terminal_cursor_below_region
     = feed_child (VTE_CAP_CSI @ ''10;1R'') terminal_cursor_below_region
   \<and> child_out (DSR_ECMA (mk_seq [P 6]) terminal_cursor_below_region) = [VTE_CAP_CSI @ ''10;1R'']
   \<and> printf_ld (cpr_row_claimed terminal_cursor_below_region) = ''6''"
proof -
  have p: "collect1 (mk_seq [P 6]) 0 (- 1) = 6"
    by (simp add: collect1_def seq_ev)
  have r: "printf_ld 10 = ''10''" "printf_ld 1 = ''1''" "printf_ld 6 = ''6''"
    by (simp_all add: dec_ev)
  have a: "DSR_ECMA (mk_seq [P 6]) terminal_cursor_below_region
     = feed_child (VTE_CAP_CSI @ ''10;1R'') terminal_cursor_below_region"
    by (simp add: DSR_ECMA_def p Let_def terminal_cursor_below_region_def terminal_80x24_def
        CLAMP_def r)
  have b: "cpr_row_claimed terminal_cursor_below_region = 6"
    by (simp add: cpr_row_claimed_def terminal_cursor_below_region_def terminal_80x24_def
        CLAMP_def)
  show ?thesis
    unfolding a b
    by (simp add: r feed_child_def terminal_cursor_below_region_def terminal_80x24_def)
qed

subsection \<open>C4: the save path of decset\<close>

lemma decset_generic_save:
  "\<not> decset_ignored key \<Longrightarrow>
   decset_generic env key s restore True set0 t =
     (live_value key s restore set0 t,
      t\<lparr>m_dec_saved := (m_dec_saved t)(s \<mapsto> live_value key s restore set0 t)\<rparr>)"
  by (simp add: decset_generic_def live_value_def Let_def)

lemma decset_generic_ignored:
  "decset_ignored key \<Longrightarrow> decset_generic env key s restore save set0 t = (set0, t)"
  by (simp add: decset_generic_def)

lemma decset_switch_other:
  "s \<notin> switch_settings \<Longrightarrow> decset_switch env s set0 t = t"
  by (simp add: decset_switch_def switch_settings_def)

lemma narrow: "signed_take_bit 15 (2 :: int) = 2" "signed_take_bit 15 (25 :: int) = 25"
  "signed_take_bit 15 (6 :: int) = 6" "signed_take_bit 15 (1000 :: int) = 1000"
  by (simp_all add: signed_take_bit_int_eq_self)

lemma find2: "decset_find env 2 = Some (entry 2 None None 0 0 None None)"
  by (simp add: decset_find_def settings_def narrow entry_def)

lemma find25: "decset_find env 25 = Some (entry 25 (Some B_cursor_visible) None 0 1 None None)"
  by (simp add: decset_find_def settings_def narrow entry_def)

lemma find6: "decset_find env 6 = Some (entry 6 (Some B_origin_mode) None 0 1 None None)"
  by (simp add: decset_find_def settings_def narrow entry_def)

lemma find1000: "decset_find env 1000 = Some (entry 1000 None (Some I_mouse_tracking_mode) 0 (MOUSE_TRACKING_SEND_XY_ON_BUTTON env)
        (Some H_reset_mouse_smooth_scroll_delta) (Some H_reset_mouse_smooth_scroll_delta))"
  by (simp add: decset_find_def settings_def narrow entry_def)

lemma decset_save_origin_mode_homes_cursor:
  "decset env 6 False True False t
     = home_cursor (t\<lparr>m_dec_saved := (m_dec_saved t)(6 \<mapsto> m_origin_mode t)\<rparr>)"
proof -
  have i: "\<not> decset_ignored (entry 6 (Some B_origin_mode) None 0 1 None None)"
    by (simp add: decset_ignored_def entry_def)
  show ?thesis
    by (simp add: decset_def find6 decset_generic_save [OF i] decset_switch_def)
       (simp add: live_value_def entry_def)
qed

text \<open>
  C4, as amended. For every setting id of the table whose entry is not one of the
  ignored ones (off-value equal to on-value and no hooks), \<open>decset\<close> with \<open>save\<close> reads
  the live value of the mode (a \<open>gboolean\<close> member directly, an \<open>int\<close> member compared
  with its on-value; for an entry that names no member, the flag passed in) and stores
  it in the saved-settings map under the setting id; in the table-driven block no
  member is written and no hook runs, whatever the hooks are; and for every setting
  but those of the per-setting \<open>switch\<close> (3, 5, 6, 9, 47, 1000 to 1003, 1047, 1049) the
  whole live state is unchanged.
\<close>

theorem decset_save_stores_live_value:
  assumes "decset_find env s = Some key" and "\<not> decset_ignored key"
  shows "decset_generic env key s restore True set0 t =
           (live_value key s restore set0 t,
            t\<lparr>m_dec_saved := (m_dec_saved t)(s \<mapsto> live_value key s restore set0 t)\<rparr>)
       \<and> (s \<notin> switch_settings \<longrightarrow>
            decset env s restore True set0 t =
              t\<lparr>m_dec_saved := (m_dec_saved t)(s \<mapsto> live_value key s restore set0 t)\<rparr>)"
  using assms
  by (simp add: decset_def decset_generic_save decset_switch_other)

theorem decset_save_stores_live_value_witness:
  "\<forall>env.
     decset_find env 25 = Some (entry 25 (Some B_cursor_visible) None 0 1 None None)
   \<and> \<not> decset_ignored (entry 25 (Some B_cursor_visible) None 0 1 None None)
   \<and> 25 \<notin> switch_settings
   \<and> decset env 25 False True False terminal_80x24
       = terminal_80x24\<lparr>m_dec_saved := [25 \<mapsto> True]\<rparr>
   \<and> decset env 25 False True False (terminal_80x24\<lparr>m_cursor_visible := False\<rparr>)
       = terminal_80x24\<lparr>m_cursor_visible := False, m_dec_saved := [25 \<mapsto> False]\<rparr>"
proof
  fix env
  let ?k = "entry 25 (Some B_cursor_visible) None 0 1 None None"
  have i: "\<not> decset_ignored ?k"
    by (simp add: decset_ignored_def entry_def)
  have n: "25 \<notin> switch_settings"
    by (simp add: switch_settings_def)
  have l: "live_value ?k 25 False False terminal_80x24 = True"
    "live_value ?k 25 False False (terminal_80x24\<lparr>m_cursor_visible := False\<rparr>) = False"
    by (simp_all add: live_value_def entry_def terminal_80x24_def)
  have m: "m_dec_saved terminal_80x24 = Map.empty"
    by (simp add: terminal_80x24_def)
  show "decset_find env 25 = Some ?k \<and> \<not> decset_ignored ?k \<and> 25 \<notin> switch_settings
   \<and> decset env 25 False True False terminal_80x24
       = terminal_80x24\<lparr>m_dec_saved := [25 \<mapsto> True]\<rparr>
   \<and> decset env 25 False True False (terminal_80x24\<lparr>m_cursor_visible := False\<rparr>)
       = terminal_80x24\<lparr>m_cursor_visible := False, m_dec_saved := [25 \<mapsto> False]\<rparr>"
    using decset_save_stores_live_value [OF find25 i, of env False False terminal_80x24]
      decset_save_stores_live_value [OF find25 i, of env False False
        "terminal_80x24\<lparr>m_cursor_visible := False\<rparr>"]
      i n find25 [of env]
    by (simp add: l m)
qed

text \<open>
  C4 as stated fails on an ignored entry: setting 2 is in the table, and saving it
  stores nothing. (The per-setting \<open>switch\<close> also runs on the save path: lemma
  \<open>decset_save_origin_mode_homes_cursor\<close>.)
\<close>

theorem decset_save_ignored_setting_stores_nothing:
  "\<forall>env. decset_find env 2 = Some (entry 2 None None 0 0 None None)
     \<and> decset env 2 False True False terminal_80x24 = terminal_80x24
     \<and> m_dec_saved (decset env 2 False True False terminal_80x24) 2 = None"
proof
  fix env
  have i: "decset_ignored (entry 2 None None 0 0 None None)"
    by (simp add: decset_ignored_def entry_def)
  have "decset env 2 False True False terminal_80x24 = terminal_80x24"
    by (simp add: decset_def find2 decset_generic_ignored [OF i] decset_switch_def)
  then show "decset_find env 2 = Some (entry 2 None None 0 0 None None)
     \<and> decset env 2 False True False terminal_80x24 = terminal_80x24
     \<and> m_dec_saved (decset env 2 False True False terminal_80x24) 2 = None"
    by (simp add: find2) (simp add: terminal_80x24_def)
qed

subsection \<open>C10: explicit and automatic hyperlink ids\<close>

lemma id_param_no_colon:
  "hyperlink_id_param hp = Some i \<Longrightarrow> CHR '':'' \<notin> set i"
  by (auto simp: hyperlink_id_param_def Let_def dest: set_takeWhileD)

lemma digit_char_props:
  assumes "d < 10"
  shows "digit_value (digit_char d) = int d" and "is_digit (digit_char d)"
proof -
  from assms have "d = 0 \<or> d = 1 \<or> d = 2 \<or> d = 3 \<or> d = 4 \<or> d = 5 \<or> d = 6 \<or> d = 7
      \<or> d = 8 \<or> d = 9" by arith
  then show "digit_value (digit_char d) = int d" and "is_digit (digit_char d)"
    by (auto simp: digit_char_def digit_value_def is_digit_def)
qed

lemma decimal_value_snoc: "decimal_value (cs @ [c]) = decimal_value cs * 10 + digit_value c"
  by (simp add: decimal_value_def)

lemma dec_nat_props:
  "decimal_value (dec_nat n) = int n \<and> list_all is_digit (dec_nat n) \<and> dec_nat n \<noteq> []"
proof (induction n rule: dec_nat.induct)
  case (1 n)
  show ?case
  proof (cases "n < 10")
    case True
    then show ?thesis
      using digit_char_props [OF True]
      by (simp add: dec_nat_small decimal_value_def)
  next
    case False
    have m: "n mod 10 < 10" by simp
    have "n div 10 * 10 + n mod 10 = n" by simp
    then have a: "int (n div 10) * 10 + int (n mod 10) = int n"
      by (metis of_nat_add of_nat_mult of_nat_numeral)
    from "1.IH" [OF False] digit_char_props [OF m] a show ?thesis
      by (simp add: dec_nat_big [OF False] decimal_value_snoc)
  qed
qed

lemma dec_nat_inj: "dec_nat m = dec_nat n \<Longrightarrow> m = n"
proof -
  assume "dec_nat m = dec_nat n"
  then have "decimal_value (dec_nat m) = decimal_value (dec_nat n)" by simp
  then show "m = n" by (simp add: dec_nat_props)
qed

lemma dec_nat_no_minus: "dec_nat n \<noteq> CHR ''-'' # cs"
proof
  assume a: "dec_nat n = CHR ''-'' # cs"
  have "list_all is_digit (dec_nat n)" by (simp add: dec_nat_props)
  then have "is_digit (CHR ''-'')" unfolding a by simp
  then show False by (simp add: is_digit_def)
qed

lemma printf_ld_inj: "printf_ld i = printf_ld j \<Longrightarrow> i = j"
proof -
  assume e: "printf_ld i = printf_ld j"
  show "i = j"
  proof (cases "i < 0")
    case True
    show ?thesis
    proof (cases "j < 0")
      case jn: True
      from e True jn have "dec_nat (nat (- i)) = dec_nat (nat (- j))"
        by (simp add: printf_ld_def)
      then have "nat (- i) = nat (- j)" by (rule dec_nat_inj)
      then show ?thesis using True jn by simp
    next
      case False
      with e True show ?thesis
        using dec_nat_no_minus [of "nat j" "dec_nat (nat (- i))"]
        by (simp add: printf_ld_def)
    qed
  next
    case False
    show ?thesis
    proof (cases "j < 0")
      case True
      with e False show ?thesis
        using dec_nat_no_minus [of "nat i" "dec_nat (nat (- j))"]
        by (simp add: printf_ld_def)
    next
      case jp: False
      from e False jp have "dec_nat (nat i) = dec_nat (nat j)"
        by (simp add: printf_ld_def)
      then have "nat i = nat j" by (rule dec_nat_inj)
      then show ?thesis using False jp by simp
    qed
  qed
qed

lemma request_cases:
  "(\<exists>i u. hyperlink_request env hp uri t = (Some (i, u), t)
       \<and> hyperlink_id_param hp = Some i \<and> i \<noteq> [] \<and> u \<noteq> [])
   \<or> (\<exists>u. hyperlink_request env hp uri t
           = (Some (CHR '':'' # printf_ld (m_hyperlink_auto_id t), u),
              t\<lparr>m_hyperlink_auto_id := m_hyperlink_auto_id t + 1\<rparr>) \<and> u \<noteq> [])
   \<or> hyperlink_request env hp uri t = (None, t)"
proof -
  define U where "U = (case uri of
                   Some u \<Rightarrow> if length u > VTE_HYPERLINK_URI_LENGTH_MAX env then Some [] else Some u
                 | None \<Rightarrow> None)"
  define I where "I = (case hyperlink_id_param hp of
                  Some i \<Rightarrow> if length i > VTE_HYPERLINK_ID_LENGTH_MAX env then Some [] else Some i
                | None \<Rightarrow> None)"
  have eq: "hyperlink_request env hp uri t =
      (case U of
           Some (c # u) \<Rightarrow>
             (case I of
                Some (d # i) \<Rightarrow> (Some (d # i, c # u), t)
              | _ \<Rightarrow>
                  (Some (CHR '':'' # printf_ld (m_hyperlink_auto_id t), c # u),
                   t\<lparr>m_hyperlink_auto_id := m_hyperlink_auto_id t + 1\<rparr>))
         | _ \<Rightarrow> (None, t))"
    unfolding hyperlink_request_def Let_def U_def I_def ..
  show ?thesis
  proof (cases U)
    case None
    then show ?thesis by (simp add: eq)
  next
    case (Some us)
    show ?thesis
    proof (cases us)
      case Nil
      with Some show ?thesis by (simp add: eq)
    next
      case (Cons c u)
      show ?thesis
      proof (cases I)
        case None
        with Some Cons show ?thesis by (simp add: eq)
      next
        case I: (Some js)
        show ?thesis
        proof (cases js)
          case Nil
          with Some Cons I show ?thesis by (simp add: eq)
        next
          case ic: (Cons d i)
          have "hyperlink_id_param hp = Some (d # i)"
            using I ic unfolding I_def by (simp split: option.splits if_splits)
          with Some Cons I ic show ?thesis by (simp add: eq)
        qed
      qed
    qed
  qed
qed

lemma explicit_not_automatic:
  "hyperlink_id_param hp = Some i \<Longrightarrow> \<not> automatic_id i"
  using id_param_no_colon [of hp i]
  by (auto simp: automatic_id_def split: list.splits)

lemma set_current_counter:
  "m_hyperlink_auto_id (set_current_hyperlink env hp uri t)
     = (if m_allow_hyperlink t then m_hyperlink_auto_id (snd (hyperlink_request env hp uri t))
        else m_hyperlink_auto_id t)"
  by (simp add: set_current_hyperlink_def case_prod_beta Let_def)

lemma automatic_ids_of_run:
  "distinct (filter automatic_id (hyperlink_ids env calls t))
   \<and> (\<forall>x \<in> set (filter automatic_id (hyperlink_ids env calls t)).
         \<exists>c \<ge> m_hyperlink_auto_id t. x = CHR '':'' # printf_ld c)"
proof (induction calls arbitrary: t)
  case Nil
  show ?case by simp
next
  case (Cons call calls)
  obtain hp uri where call: "call = (hp, uri)" by (cases call)
  let ?t1 = "set_current_hyperlink env hp uri t"
  let ?c = "m_hyperlink_auto_id t"
  let ?rest = "filter automatic_id (hyperlink_ids env calls ?t1)"
  note IH = Cons.IH [of ?t1]
  show ?case
  proof (cases "m_allow_hyperlink t")
    case False
    then have "?t1 = t" by (simp add: set_current_hyperlink_def)
    with IH False show ?thesis by (simp add: call)
  next
    case True
    from request_cases [of env hp uri t]
    consider (explicit) i u where "hyperlink_request env hp uri t = (Some (i, u), t)"
        "hyperlink_id_param hp = Some i"
      | (auto) u where "hyperlink_request env hp uri t
           = (Some (CHR '':'' # printf_ld ?c, u), t\<lparr>m_hyperlink_auto_id := ?c + 1\<rparr>)"
      | (none) "hyperlink_request env hp uri t = (None, t)"
      by blast
    then show ?thesis
    proof cases
      case explicit
      have c1: "m_hyperlink_auto_id ?t1 = ?c"
        using True explicit(1) by (simp add: set_current_counter)
      have "filter automatic_id (hyperlink_ids env (call # calls) t) = ?rest"
        using True explicit explicit_not_automatic [OF explicit(2)] by (simp add: call)
      with IH c1 show ?thesis by simp
    next
      case none
      have c1: "m_hyperlink_auto_id ?t1 = ?c"
        using True none by (simp add: set_current_counter)
      have "filter automatic_id (hyperlink_ids env (call # calls) t) = ?rest"
        using True none by (simp add: call)
      with IH c1 show ?thesis by simp
    next
      case auto
      have c1: "m_hyperlink_auto_id ?t1 = ?c + 1"
        using True auto by (simp add: set_current_counter)
      have e: "filter automatic_id (hyperlink_ids env (call # calls) t)
          = (CHR '':'' # printf_ld ?c) # ?rest"
        using True auto by (simp add: call automatic_id_def)
      have new: "CHR '':'' # printf_ld ?c \<notin> set ?rest"
      proof
        assume "CHR '':'' # printf_ld ?c \<in> set ?rest"
        with IH c1 obtain c where "c \<ge> ?c + 1" "CHR '':'' # printf_ld ?c = CHR '':'' # printf_ld c"
          by auto
        then show False using printf_ld_inj [of ?c c] by simp
      qed
      have "\<exists>c \<ge> ?c. x = CHR '':'' # printf_ld c" if "x \<in> set ?rest" for x
      proof -
        from IH c1 that obtain c where "c \<ge> ?c + 1" "x = CHR '':'' # printf_ld c" by auto
        then show ?thesis by (intro exI [of _ c]) simp
      qed
      with IH new show ?thesis
        unfolding e by auto
    qed
  qed
qed

lemma hyperlink_ex1: "hyperlink_id_param (Some ''id=foo:bar'') = Some ''foo''"
  by (simp add: hyperlink_id_param_def)

lemma hyperlink_ex2: "hyperlink_id_param (Some ''a=b:id=x:c'') = Some ''x''"
  by (simp add: hyperlink_id_param_def)

lemma hyperlink_ex3: "hyperlink_request hl_env (Some []) (Some ''http://a'') terminal_80x24
   = (Some ('':0'', ''http://a''), terminal_80x24\<lparr>m_hyperlink_auto_id := 1\<rparr>)"
  by (simp add: hyperlink_request_def hyperlink_id_param_def hl_env_def Let_def dec_ev)
     (simp add: terminal_80x24_def dec_ev)

lemma hyperlink_ex4: "hyperlink_ids hl_env [(Some [], Some ''http://a''), (Some [], Some ''http://a''),
      (Some ''id=me'', Some ''http://a'')] terminal_80x24 = ['':0'', '':1'', ''me'']"
  by (simp add: hyperlink_request_def hyperlink_id_param_def hl_env_def Let_def dec_ev
      set_current_hyperlink_def terminal_80x24_def)


text \<open>
  C10. An id taken from the parameter string holds no colon; an id that is generated
  is a colon followed by the decimal digits of the counter, which then goes up by
  one; so a generated id differs from every id taken from a parameter string, two
  values of the counter give two different ids, and in every run of OSC 8 sequences
  the generated ids are pairwise distinct, whatever the URIs.
\<close>

theorem hyperlink_ids_never_collide:
  "(\<forall>i. hyperlink_id_param hp = Some i \<longrightarrow> CHR '':'' \<notin> set i \<and> \<not> automatic_id i)
   \<and> (\<forall>i u t'. hyperlink_request env hp uri t = (Some (i, u), t') \<longrightarrow>
          (hyperlink_id_param hp = Some i \<and> t' = t)
        \<or> (i = CHR '':'' # printf_ld (m_hyperlink_auto_id t)
            \<and> m_hyperlink_auto_id t' = m_hyperlink_auto_id t + 1))
   \<and> (\<forall>c i. hyperlink_id_param hp = Some i \<longrightarrow> CHR '':'' # printf_ld c \<noteq> i)
   \<and> (\<forall>c c'. c \<noteq> c' \<longrightarrow> CHR '':'' # printf_ld c \<noteq> CHR '':'' # printf_ld c')
   \<and> distinct (filter automatic_id (hyperlink_ids env calls t))"
proof (intro conjI allI impI)
  fix i assume a: "hyperlink_id_param hp = Some i"
  show "CHR '':'' \<notin> set i" using a by (rule id_param_no_colon)
  show "\<not> automatic_id i" using a by (rule explicit_not_automatic)
next
  fix i u t' assume a: "hyperlink_request env hp uri t = (Some (i, u), t')"
  from request_cases [of env hp uri t] a
  show "(hyperlink_id_param hp = Some i \<and> t' = t)
        \<or> (i = CHR '':'' # printf_ld (m_hyperlink_auto_id t)
            \<and> m_hyperlink_auto_id t' = m_hyperlink_auto_id t + 1)"
    by auto
next
  fix c i assume a: "hyperlink_id_param hp = Some i"
  show "CHR '':'' # printf_ld c \<noteq> i"
    using id_param_no_colon [OF a] by auto
next
  fix c c' :: int assume "c \<noteq> c'"
  then show "CHR '':'' # printf_ld c \<noteq> CHR '':'' # printf_ld c'"
    using printf_ld_inj [of c c'] by auto
next
  show "distinct (filter automatic_id (hyperlink_ids env calls t))"
    using automatic_ids_of_run [of env calls t] by simp
qed

theorem hyperlink_ids_never_collide_witness:
  "hyperlink_id_param (Some ''id=foo:bar'') = Some ''foo''
   \<and> CHR '':'' \<notin> set ''foo'' \<and> \<not> automatic_id ''foo''
   \<and> hyperlink_request hl_env (Some []) (Some ''http://a'') terminal_80x24
       = (Some ('':0'', ''http://a''), terminal_80x24\<lparr>m_hyperlink_auto_id := 1\<rparr>)
   \<and> '':0'' = CHR '':'' # printf_ld (m_hyperlink_auto_id terminal_80x24)
   \<and> m_hyperlink_auto_id (terminal_80x24\<lparr>m_hyperlink_auto_id := 1\<rparr>)
       = m_hyperlink_auto_id terminal_80x24 + 1
   \<and> CHR '':'' # printf_ld 7 \<noteq> ''foo''
   \<and> (0 :: int) \<noteq> 1 \<and> CHR '':'' # printf_ld 0 \<noteq> CHR '':'' # printf_ld 1
   \<and> hyperlink_ids hl_env [(Some [], Some ''http://a''), (Some [], Some ''http://a''),
         (Some ''id=me'', Some ''http://a'')] terminal_80x24 = ['':0'', '':1'', ''me'']
   \<and> distinct (filter automatic_id (hyperlink_ids hl_env
         [(Some [], Some ''http://a''), (Some [], Some ''http://a''),
          (Some ''id=me'', Some ''http://a'')] terminal_80x24))"
proof -
  note T = hyperlink_ids_never_collide [of "Some ''id=foo:bar''" hl_env "Some ''http://a''"
      terminal_80x24
      "[(Some [], Some ''http://a''), (Some [], Some ''http://a''),
        (Some ''id=me'', Some ''http://a'')]"]
  have a: "CHR '':'' \<notin> set ''foo'' \<and> \<not> automatic_id ''foo''"
    using T [THEN conjunct1, rule_format, OF hyperlink_ex1] .
  have b: "CHR '':'' # printf_ld 7 \<noteq> ''foo''"
    using T [THEN conjunct2, THEN conjunct2, THEN conjunct1, rule_format, OF hyperlink_ex1, of 7] .
  have c: "CHR '':'' # printf_ld 0 \<noteq> CHR '':'' # printf_ld 1"
    using T [THEN conjunct2, THEN conjunct2, THEN conjunct2, THEN conjunct1, rule_format, of 0 1]
    by simp
  have d: "distinct (filter automatic_id (hyperlink_ids hl_env
         [(Some [], Some ''http://a''), (Some [], Some ''http://a''),
          (Some ''id=me'', Some ''http://a'')] terminal_80x24))"
    using T [THEN conjunct2, THEN conjunct2, THEN conjunct2, THEN conjunct2] .
  have e: "'':0'' = CHR '':'' # printf_ld (m_hyperlink_auto_id terminal_80x24)"
    by (simp add: terminal_80x24_def dec_ev)
  have f: "m_hyperlink_auto_id (terminal_80x24\<lparr>m_hyperlink_auto_id := 1\<rparr>)
       = m_hyperlink_auto_id terminal_80x24 + 1"
    by (simp add: terminal_80x24_def)
  have g: "(0 :: int) \<noteq> 1" by simp
  show ?thesis
    by (intro conjI hyperlink_ex1 conjunct1 [OF a] conjunct2 [OF a] hyperlink_ex3 e f b g c hyperlink_ex4 d)
qed

end
